theory Spec2Isabelle
  imports Complex_Main "HOL-Library.AList" "HOL-Library.Sublist"
begin

section \<open>Python values the script handles\<close>

text \<open>
  The script \<^verbatim>\<open>script/fetch_prices.py\<close> asks a price provider for USD quotes, turns each
  quote into an integer scaled by \<open>10^18\<close> and prints one \<^verbatim>\<open>tokens.push(...)\<close> line per
  entry of a static table. Every exception the script can raise is a value of \<open>error\<close>.
\<close>

datatype error =
    RequestException    \<comment> \<open>\<^verbatim>\<open>requests.get\<close> raised: no connection, timeout, ...\<close>
  | JSONDecodeError     \<comment> \<open>\<^verbatim>\<open>.json()\<close> on a body that is not JSON\<close>
  | TypeError
  | KeyError
  | InvalidOperation    \<comment> \<open>\<^verbatim>\<open>decimal.InvalidOperation\<close>\<close>
  | Overflow            \<comment> \<open>\<^verbatim>\<open>decimal.Overflow\<close>\<close>
  | ValueError
  | OverflowError

text \<open>
  A parsed JSON document, as \<^verbatim>\<open>json.loads\<close> builds it. A JSON number without fraction or
  exponent becomes a Python \<open>int\<close>; any other number becomes a \<open>float\<close>. The script applies
  only \<^verbatim>\<open>str\<close> to a number, so a float is carried as the text \<^verbatim>\<open>str\<close> gives for it
  (\<^verbatim>\<open>2.5\<close>, \<^verbatim>\<open>1e-07\<close>, \<^verbatim>\<open>inf\<close>, \<^verbatim>\<open>nan\<close>). An object is a dict, carried as an association
  list that is read with \<open>map_of\<close>.
\<close>

datatype json =
    JNull
  | JBool bool
  | JInt int
  | JFloat string
  | JStr string
  | JArr "json list"
  | JObj "(string \<times> json) list"

subsection \<open>Decimal digits\<close>

definition is_digit :: "char \<Rightarrow> bool" where
  "is_digit c = (48 \<le> (of_char c :: nat) \<and> (of_char c :: nat) \<le> 57)"

definition digit_val :: "char \<Rightarrow> nat" where
  "digit_val c = of_char c - 48"

definition digit_char :: "nat \<Rightarrow> char" where
  "digit_char d = ''0123456789'' ! d"

definition nat_of_digits :: "string \<Rightarrow> nat" where
  "nat_of_digits ds = foldl (\<lambda>a c. 10 * a + digit_val c) 0 ds"

text \<open>The decimal text of a Python \<open>int\<close>: base 10, no separators, a minus sign when
  negative.\<close>

fun str_nat :: "nat \<Rightarrow> string" where
  "str_nat n = (if n < 10 then [digit_char n] else str_nat (n div 10) @ [digit_char (n mod 10)])"

declare str_nat.simps [simp del]

definition str_int :: "int \<Rightarrow> string" where
  "str_int i = (if i < 0 then CHR ''-'' # str_nat (nat (- i)) else str_nat (nat i))"

definition ndigits :: "nat \<Rightarrow> nat" where
  "ndigits c = length (str_nat c)"

text \<open>
  \<^verbatim>\<open>str(n)\<close> for a Python \<open>int\<close>. From CPython 3.11 on the conversion raises \<^verbatim>\<open>ValueError\<close>
  when the number has more digits than \<^verbatim>\<open>sys.get_int_max_str_digits()\<close>, 4300 unless the
  interpreter is configured otherwise; the sign does not count.
\<close>

definition max_str_digits :: nat where
  "max_str_digits = 4300"

definition py_str_int :: "int \<Rightarrow> error + string" where
  "py_str_int i =
     (if max_str_digits < ndigits (nat \<bar>i\<bar>) then Inl ValueError else Inr (str_int i))"

section \<open>The part of Python's \<^verbatim>\<open>decimal\<close> module the script uses\<close>

text \<open>
  A \<^verbatim>\<open>Decimal\<close> is a sign, a coefficient and an exponent (\<open>Finite sg c e\<close> stands for
  \<open>\<plusminus> c \<times> 10^e\<close>), an infinity, or a NaN (the flag says whether it is signalling). The
  script only multiplies a \<^verbatim>\<open>Decimal\<close> and converts it to \<open>int\<close>; neither looks at
  the sign or the payload of a NaN, which are left out.
\<close>

datatype Decimal =
    Finite bool nat int
  | Infinity bool
  | NaN bool

text \<open>The context: line 5 of the script sets \<open>prec\<close>; the other fields keep their defaults
  (\<^verbatim>\<open>Emax=999999, Emin=-999999, rounding=ROUND_HALF_EVEN, clamp=0\<close>, with
  \<^verbatim>\<open>InvalidOperation\<close> and \<^verbatim>\<open>Overflow\<close> trapped, that is, raised).\<close>

definition prec :: nat where
  "prec = 50"

definition Emax :: int where
  "Emax = 999999"

definition Emin :: int where
  "Emin = - 999999"

definition Etiny :: int where
  "Etiny = Emin - int prec + 1"

definition Etop :: int where
  "Etop = Emax - int prec + 1"

subsection \<open>\<^verbatim>\<open>Decimal(text)\<close>\<close>

text \<open>
  The constructor strips white space, drops underscores and matches, ignoring case,
  \<^verbatim>\<open>[-+]?( (?=\d|\.\d)\d*(\.\d*)?(E[-+]?\d+)? | Inf(inity)? | s?NaN\d* )\<close>
  up to the end of the text. The result is exact: the context's precision does not apply.
  Characters are bytes here, so only ASCII digits and ASCII white space are covered.

  The constructor is that of CPython's C implementation in a 64-bit build. It converts
  in the widest context the library has (\<open>MAX_EMAX\<close>, \<open>MIN_EMIN\<close>, \<open>MAX_PREC\<close>) and
  raises \<^verbatim>\<open>InvalidOperation\<close> when the number does not fit there exactly: when its
  adjusted exponent is above \<open>MAX_EMAX\<close> or its exponent is below
  \<open>MIN_ETINY = MIN_EMIN - (MAX_PREC - 1)\<close>. A coefficient of more than \<open>MAX_PREC\<close>
  digits, which no text that fits in memory has, is not covered.
\<close>

definition MAX_EMAX :: int where
  "MAX_EMAX = 999999999999999999"

definition MIN_ETINY :: int where
  "MIN_ETINY = - 1999999999999999997"

definition is_space :: "char \<Rightarrow> bool" where
  "is_space c = (let n = (of_char c :: nat) in (9 \<le> n \<and> n \<le> 13) \<or> (28 \<le> n \<and> n \<le> 32))"

definition strip :: "string \<Rightarrow> string" where
  "strip s = rev (dropWhile is_space (rev (dropWhile is_space s)))"

definition lower :: "char \<Rightarrow> char" where
  "lower c = (let n = (of_char c :: nat) in if 65 \<le> n \<and> n \<le> 90 then char_of (n + 32) else c)"

fun parse_sign :: "string \<Rightarrow> bool \<times> string" where
  "parse_sign [] = (False, [])"
| "parse_sign (c # cs) =
     (if c = CHR ''-'' then (True, cs)
      else if c = CHR ''+'' then (False, cs)
      else (False, c # cs))"

definition parse_exponent :: "string \<Rightarrow> int option" where
  "parse_exponent s =
     (let (neg, ds) = parse_sign s
      in if ds \<noteq> [] \<and> list_all is_digit ds
         then Some (if neg then - int (nat_of_digits ds) else int (nat_of_digits ds))
         else None)"

definition parse_number :: "string \<Rightarrow> (nat \<times> int) option" where
  "parse_number s =
     (let intpart = takeWhile is_digit s;
          r1 = dropWhile is_digit s;
          (fracpart, r2) =
             (case r1 of
                [] \<Rightarrow> ([], r1)
              | c # t \<Rightarrow> if c = CHR ''.'' then (takeWhile is_digit t, dropWhile is_digit t)
                         else ([], r1))
      in if intpart = [] \<and> fracpart = [] then None
         else (case r2 of
                 [] \<Rightarrow> Some (nat_of_digits (intpart @ fracpart), - int (length fracpart))
               | c # t \<Rightarrow>
                   if lower c = CHR ''e''
                   then (case parse_exponent t of
                           None \<Rightarrow> None
                         | Some x \<Rightarrow> Some (nat_of_digits (intpart @ fracpart),
                                           x - int (length fracpart)))
                   else None))"

definition parse_special :: "bool \<Rightarrow> string \<Rightarrow> Decimal option" where
  "parse_special sg s =
     (let l = map lower s
      in if l = ''inf'' \<or> l = ''infinity'' then Some (Infinity sg)
         else if take 3 l = ''nan'' \<and> list_all is_digit (drop 3 l) then Some (NaN False)
         else if take 4 l = ''snan'' \<and> list_all is_digit (drop 4 l) then Some (NaN True)
         else None)"

definition Decimal_of_str :: "string \<Rightarrow> error + Decimal" where
  "Decimal_of_str v =
     (let (sg, rest) = parse_sign (filter (\<lambda>c. c \<noteq> CHR ''_'') (strip v))
      in case parse_number rest of
           Some (c, e) \<Rightarrow>
             if MAX_EMAX < e + int (ndigits c) - 1 \<or> e < MIN_ETINY then Inl InvalidOperation
             else Inr (Finite sg c e)
         | None \<Rightarrow> (case parse_special sg rest of
                      Some d \<Rightarrow> Inr d
                    | None \<Rightarrow> Inl InvalidOperation))"

text \<open>\<^verbatim>\<open>Decimal(n)\<close> for a Python \<open>int\<close> is exact as well.\<close>

definition Decimal_of_int :: "int \<Rightarrow> Decimal" where
  "Decimal_of_int i = Finite (i < 0) (nat \<bar>i\<bar>) 0"

subsection \<open>Rounding to the context and multiplication\<close>

text \<open>
  \<open>round_half_even c k\<close> drops the \<open>k\<close> low digits of \<open>c\<close> and rounds the rest to nearest,
  a tie to the even neighbour.
\<close>

definition round_up :: "nat \<Rightarrow> nat \<Rightarrow> bool" where
  "round_up c k =
     (let q = c div 10 ^ k; r = c mod 10 ^ k; h = 5 * 10 ^ (k - 1)
      in h < r \<or> (r = h \<and> odd q))"

text \<open>
  \<^verbatim>\<open>Decimal._fix\<close>: the result of an operation is fitted to the context. A zero only has
  its exponent clamped. Otherwise a result above \<open>Emax\<close> raises \<^verbatim>\<open>Overflow\<close>, a
  coefficient of more than \<open>prec\<close> digits is rounded to \<open>prec\<close> digits, and a result below
  \<open>Emin\<close> is rounded to the exponent \<open>Etiny\<close>.
\<close>

definition Decimal_fix :: "bool \<Rightarrow> nat \<Rightarrow> int \<Rightarrow> error + Decimal" where
  "Decimal_fix sg c e =
     (if c = 0 then Inr (Finite sg 0 (min (max e Etiny) Emax))
      else
        let exp_min0 = int (ndigits c) + e - int prec
        in if Etop < exp_min0 then Inl Overflow
           else
             let exp_min = (if exp_min0 < Etiny then Etiny else exp_min0)
             in if e < exp_min then
                  let digits0 = int (ndigits c) + e - exp_min;
                      (c1, digits) = (if digits0 < 0 then (1, 0) else (c, nat digits0));
                      k = ndigits c1 - digits;
                      coeff0 = c1 div 10 ^ k;
                      (coeff, exp_min1) =
                         (if round_up c1 k
                          then (if prec < ndigits (coeff0 + 1)
                                then ((coeff0 + 1) div 10, exp_min + 1)
                                else (coeff0 + 1, exp_min))
                          else (coeff0, exp_min))
                  in if Etop < exp_min1 then Inl Overflow
                     else Inr (Finite sg coeff exp_min1)
                else Inr (Finite sg c e))"

definition is_snan :: "Decimal \<Rightarrow> bool" where
  "is_snan d = (case d of NaN sig \<Rightarrow> sig | _ \<Rightarrow> False)"

definition is_nan :: "Decimal \<Rightarrow> bool" where
  "is_nan d = (case d of NaN sig \<Rightarrow> True | _ \<Rightarrow> False)"

text \<open>\<^verbatim>\<open>Decimal.__mul__\<close>: the exact product of the coefficients, then \<open>Decimal_fix\<close>.\<close>

definition Decimal_mul :: "Decimal \<Rightarrow> Decimal \<Rightarrow> error + Decimal" where
  "Decimal_mul a b =
     (if is_snan a \<or> is_snan b then Inl InvalidOperation
      else if is_nan a \<or> is_nan b then Inr (NaN False)
      else
        (case a of
           Infinity s1 \<Rightarrow>
             (case b of
                Finite s2 c2 e2 \<Rightarrow>
                  if c2 = 0 then Inl InvalidOperation else Inr (Infinity (s1 \<noteq> s2))
              | Infinity s2 \<Rightarrow> Inr (Infinity (s1 \<noteq> s2))
              | NaN sig \<Rightarrow> Inr (NaN False))
         | Finite s1 c1 e1 \<Rightarrow>
             (case b of
                Finite s2 c2 e2 \<Rightarrow> Decimal_fix (s1 \<noteq> s2) (c1 * c2) (e1 + e2)
              | Infinity s2 \<Rightarrow>
                  if c1 = 0 then Inl InvalidOperation else Inr (Infinity (s1 \<noteq> s2))
              | NaN sig \<Rightarrow> Inr (NaN False))
         | NaN sig \<Rightarrow> Inr (NaN False)))"

text \<open>\<^verbatim>\<open>Decimal.__int__\<close>: the digits before the decimal point, with the sign.\<close>

fun Decimal_int :: "Decimal \<Rightarrow> error + int" where
  "Decimal_int (NaN sig) = Inl ValueError"
| "Decimal_int (Infinity sg) = Inl OverflowError"
| "Decimal_int (Finite sg c e) =
     Inr ((if sg then - 1 else 1) *
          (if 0 \<le> e then int c * 10 ^ nat e else int (c div 10 ^ nat (- e))))"

section \<open>The script\<close>

subsection \<open>The static tables\<close>

definition TOKENS :: "(string \<times> string) list" where
  "TOKENS =
    [(''BAT'',   ''0x02a8db2231f88fee863081aa7baa4b7e3795e84d''),
     (''BDX'',   ''0xc8805760222bd0a26a9cd0517fecd47f8a0f735f''),
     (''FIL'',   ''0x4e248e77ccff9766ec3d836a8219d5dd4b646d1d''),
     (''GLM'',   ''0xec675ef3bd4db1ce1e01990984222636311854d0''),
     (''ICP'',   ''0xb6eb2a1b73bc0d94 02c59c1b092abcec900b3d04''),
     (''NEAR'',  ''0x31d0d71d767ce6b4d92af123476f6db87a4f4249''),
     (''NMR'',   ''0x7ae619fb4025218ba58f0541cc6ebaaefb604769''),
     (''SIREN'', ''0x4221c19e2bebd58a3bc7b8d38c76bdc72644ff9f''),
     (''TRAC'',  ''0x812ce10fb1b923c054c47c0cd93244b45850e6a8''),
     (''VANA'',  ''0x2832bfd3b0141ef7f1452ea1975323153ac0a7c7''),
     (''BCH'',   ''0xbe1e8ce9c2e3125aa4155e360cab1de1d6109239''),
     (''COMP'',  ''0x07c0080711b2e937f32846779ee6c5828b8ab24d''),
     (''FRAX'',  ''0x9babf71cff53a59cbd5aaff768238a60c6ac3f4b''),
     (''KAS'',   ''0x0fe6ef67eff87378f49864e666039387ff8ade4e''),
     (''LTC'',   ''0x0c4ceba4def071a21650e54e598a6602157521cc''),
     (''UNI'',   ''0xf07f3722753db48f1c967d97eefcdd837a247105''),
     (''WLFI'',  ''0x3eefe62cb64e762b2c207a5e901a16e616a0dc7c''),
     (''XRP'',   ''0xef28f15fff0df624c7cafe1fcd59a73f366559ca''),
     (''ZEN'',   ''0xadc745fbaca7d2f6857a19c64f1d0b26094e1033'')]"

definition COINGECKO_IDS :: "(string \<times> string) list" where
  "COINGECKO_IDS =
    [(''BAT'', ''basic-attention-token''),
     (''BDX'', ''beldex''),
     (''FIL'', ''filecoin''),
     (''GLM'', ''golem''),
     (''ICP'', ''internet-computer''),
     (''NEAR'', ''near''),
     (''NMR'', ''numeraire''),
     (''SIREN'', ''siren''),
     (''TRAC'', ''origintrail''),
     (''VANA'', ''vana''),
     (''BCH'', ''bitcoin-cash''),
     (''COMP'', ''compound''),
     (''FRAX'', ''frax''),
     (''KAS'', ''kaspa''),
     (''LTC'', ''litecoin''),
     (''UNI'', ''uniswap''),
     (''WLFI'', ''world-liberty-financial''),
     (''XRP'', ''ripple''),
     (''ZEN'', ''horizen'')]"

subsection \<open>Reading the response\<close>

text \<open>\<^verbatim>\<open>cg_id in data\<close>: key membership in a dict, element membership in a list, substring
  test in a string, a \<^verbatim>\<open>TypeError\<close> on anything else.\<close>

fun py_contains :: "string \<Rightarrow> json \<Rightarrow> error + bool" where
  "py_contains k (JObj kvs) = Inr (map_of kvs k \<noteq> None)"
| "py_contains k (JArr xs) = Inr (JStr k \<in> set xs)"
| "py_contains k (JStr s) = Inr (sublist k s)"
| "py_contains k (JFloat r) = Inl TypeError"
| "py_contains k (JInt i) = Inl TypeError"
| "py_contains k (JBool b) = Inl TypeError"
| "py_contains k JNull = Inl TypeError"

text \<open>\<^verbatim>\<open>v[k]\<close> for a string \<open>k\<close>: a dict looks the key up and raises \<^verbatim>\<open>KeyError\<close> when it
  is missing; no other JSON value can be indexed by a string.\<close>

fun py_getitem :: "json \<Rightarrow> string \<Rightarrow> error + json" where
  "py_getitem (JObj kvs) k = (case map_of kvs k of None \<Rightarrow> Inl KeyError | Some v \<Rightarrow> Inr v)"
| "py_getitem (JArr xs) k = Inl TypeError"
| "py_getitem (JStr s) k = Inl TypeError"
| "py_getitem (JFloat r) k = Inl TypeError"
| "py_getitem (JInt i) k = Inl TypeError"
| "py_getitem (JBool b) k = Inl TypeError"
| "py_getitem JNull k = Inl TypeError"

text \<open>\<^verbatim>\<open>Decimal(str(v))\<close>. The text of a list or a dict starts with a bracket, which the
  constructor rejects whatever follows; \<^verbatim>\<open>str\<close> of an \<open>int\<close> of more than 4300 digits raises
  \<^verbatim>\<open>ValueError\<close>.\<close>

fun Decimal_of_json :: "json \<Rightarrow> error + Decimal" where
  "Decimal_of_json (JStr s) = Decimal_of_str s"
| "Decimal_of_json (JInt i) =
     (case py_str_int i of Inl err \<Rightarrow> Inl err | Inr text \<Rightarrow> Decimal_of_str text)"
| "Decimal_of_json (JFloat r) = Decimal_of_str r"
| "Decimal_of_json (JBool b) = Decimal_of_str (if b then ''True'' else ''False'')"
| "Decimal_of_json JNull = Decimal_of_str ''None''"
| "Decimal_of_json (JArr xs) = Inl InvalidOperation"
| "Decimal_of_json (JObj kvs) = Inl InvalidOperation"

text \<open>
  The two module-level tables are globals of the script. The model passes the identifier
  table as an argument \<open>ids\<close> (a dict, read with \<^verbatim>\<open>.get\<close>) and the token table as an
  argument \<open>tokens\<close>, and \<open>main\<close> below supplies the static tables.

  The body of the loop of \<^verbatim>\<open>fetch_prices\<close> (lines 61 to 65): the value stored for \<open>symb\<close> (the loop variable \<^verbatim>\<open>sym\<close>).
  An empty identifier is falsy, so it takes the \<^verbatim>\<open>else\<close> branch as a missing one does.
\<close>

definition lookup_price :: "(string \<rightharpoonup> string) \<Rightarrow> json \<Rightarrow> string \<Rightarrow> error + Decimal option" where
  "lookup_price ids data symb =
     (case ids symb of
        None \<Rightarrow> Inr None
      | Some cg_id \<Rightarrow>
          if cg_id = [] then Inr None
          else
            (case py_contains cg_id data of
               Inl err \<Rightarrow> Inl err
             | Inr False \<Rightarrow> Inr None
             | Inr True \<Rightarrow>
                 (case py_getitem data cg_id of
                    Inl err \<Rightarrow> Inl err
                  | Inr entry \<Rightarrow>
                      (case py_getitem entry ''usd'' of
                         Inl err \<Rightarrow> Inl err
                       | Inr v \<Rightarrow>
                           (case Decimal_of_json v of
                              Inl err \<Rightarrow> Inl err
                            | Inr d \<Rightarrow> Inr (Some d))))))"

text \<open>The dict \<open>prices\<close> keeps insertion order; assigning to a key that is present keeps
  its place, which is what \<open>AList.update\<close> does.\<close>

type_synonym prices = "(string \<times> Decimal option) list"

fun price_loop ::
  "(string \<rightharpoonup> string) \<Rightarrow> json \<Rightarrow> string list \<Rightarrow> prices \<Rightarrow> error + prices" where
  "price_loop ids data [] prices = Inr prices"
| "price_loop ids data (symb # rest) prices =
     (case lookup_price ids data symb of
        Inl err \<Rightarrow> Inl err
      | Inr p \<Rightarrow> price_loop ids data rest (AList.update symb p prices))"

subsection \<open>The request\<close>

fun join :: "string \<Rightarrow> string list \<Rightarrow> string" where
  "join sep [] = []"
| "join sep [x] = x"
| "join sep (x # y # ys) = x @ sep @ join sep (y # ys)"

definition request_ids :: "(string \<rightharpoonup> string) \<Rightarrow> string list \<Rightarrow> string list" where
  "request_ids ids symbols = map (\<lambda>s. the (ids s)) (filter (\<lambda>s. ids s \<noteq> None) symbols)"

definition request_url :: "(string \<rightharpoonup> string) \<Rightarrow> string list \<Rightarrow> string" where
  "request_url ids symbols =
     ''https://api.coingecko.com/api/v3/simple/price'' @
     ''?ids='' @ join '','' (request_ids ids symbols) @ ''&vs_currencies=usd''"

text \<open>
  What the network does with the request is an input of the model: \<^verbatim>\<open>requests.get\<close>
  either raises or returns a response with a status code and a body, and \<^verbatim>\<open>.json()\<close>
  parses the body (\<open>None\<close> stands for a body that is not JSON). The script never looks
  at the status code.
\<close>

datatype http_outcome =
    TransportFailure
  | Response nat "json option"

definition fetch_prices ::
  "(string \<rightharpoonup> string) \<Rightarrow> (string \<Rightarrow> http_outcome) \<Rightarrow> string list \<Rightarrow> error + prices" where
  "fetch_prices ids net symbols =
     (case net (request_url ids symbols) of
        TransportFailure \<Rightarrow> Inl RequestException
      | Response status body \<Rightarrow>
          (case body of
             None \<Rightarrow> Inl JSONDecodeError
           | Some data \<Rightarrow> price_loop ids data symbols []))"

subsection \<open>The output loop\<close>

text \<open>\<open>scaled\<close> is the string \<^verbatim>\<open>"None"\<close> or an \<open>int\<close>; the f-string of line 82 formats either
  with \<^verbatim>\<open>str\<close>, which raises for an \<open>int\<close> of more than 4300 digits.\<close>

datatype py_value =
    PyStr string
  | PyInt int

fun py_str :: "py_value \<Rightarrow> error + string" where
  "py_str (PyStr s) = Inr s"
| "py_str (PyInt i) = py_str_int i"

text \<open>The text of the line for a symbol, an address and the text of \<open>scaled\<close>.\<close>

definition line_of :: "string \<Rightarrow> string \<Rightarrow> string \<Rightarrow> string" where
  "line_of symbol address text =
     ''tokens.push(TokenConfig('' @ [CHR 0x22] @ symbol @ [CHR 0x22] @ '', '' @ address @
     '', '' @ text @ '', 18));''"

text \<open>Line 82: the f-string is evaluated, which can raise, and its text is printed.\<close>

definition print_line :: "string \<Rightarrow> string \<Rightarrow> py_value \<Rightarrow> error + string" where
  "print_line symbol address scaled =
     (case py_str scaled of
        Inl err \<Rightarrow> Inl err
      | Inr text \<Rightarrow> Inr (line_of symbol address text))"

text \<open>
  For stating what a run prints: \<open>format_value\<close> is the text of a value with no check of
  its length, and \<open>format_line\<close> the line with that text. They are what \<open>py_str\<close> and
  \<open>print_line\<close> return when they do not raise (\<open>py_str_cases\<close>, \<open>print_line_Inr\<close> below).
\<close>

fun format_value :: "py_value \<Rightarrow> string" where
  "format_value (PyStr s) = s"
| "format_value (PyInt i) = str_int i"

definition compute_scaled :: "Decimal option \<Rightarrow> error + py_value" where
  "compute_scaled p =
     (case p of
        None \<Rightarrow> Inr (PyStr ''None'')
      | Some d \<Rightarrow>
          (case Decimal_mul d (Decimal_of_int (10 ^ 18)) of
             Inl err \<Rightarrow> Inl err
           | Inr m \<Rightarrow>
               (case Decimal_int m of
                  Inl err \<Rightarrow> Inl err
                | Inr i \<Rightarrow> Inr (PyInt i))))"

definition format_line :: "string \<Rightarrow> string \<Rightarrow> py_value \<Rightarrow> string" where
  "format_line symbol address scaled = line_of symbol address (format_value scaled)"

text \<open>What a run leaves behind: the lines printed, and the exception that ended it, if
  one did.\<close>

type_synonym run = "string list \<times> error option"

fun output_loop :: "prices \<Rightarrow> (string \<times> string) list \<Rightarrow> run" where
  "output_loop prices [] = ([], None)"
| "output_loop prices ((symbol, address) # rest) =
     (case map_of prices symbol of
        None \<Rightarrow> ([], Some KeyError)
      | Some p \<Rightarrow>
          (case compute_scaled p of
             Inl err \<Rightarrow> ([], Some err)
           | Inr scaled \<Rightarrow>
               (case print_line symbol address scaled of
                  Inl err \<Rightarrow> ([], Some err)
                | Inr line \<Rightarrow>
                    (case output_loop prices rest of
                       (lines, r) \<Rightarrow> (line # lines, r)))))"

definition script ::
  "(string \<rightharpoonup> string) \<Rightarrow> (string \<times> string) list \<Rightarrow> (string \<Rightarrow> http_outcome) \<Rightarrow> run" where
  "script ids tokens net =
     (case fetch_prices ids net (map fst tokens) of
        Inl err \<Rightarrow> ([], Some err)
      | Inr prices \<Rightarrow> output_loop prices tokens)"

definition main :: "(string \<Rightarrow> http_outcome) \<Rightarrow> run" where
  "main net = script (map_of COINGECKO_IDS) TOKENS net"

section \<open>Prices\<close>

text \<open>\<^verbatim>\<open>Decimal(str(entry["usd"]))\<close>, the price line 63 of the script reads from the record
  the response holds for an identifier.\<close>

definition usd_of :: "json \<Rightarrow> error + Decimal" where
  "usd_of entry =
     (case py_getitem entry ''usd'' of
        Inl err \<Rightarrow> Inl err
      | Inr v \<Rightarrow> Decimal_of_json v)"

text \<open>The rational number a finite \<^verbatim>\<open>Decimal\<close> denotes.\<close>

definition decimal_value :: "bool \<Rightarrow> nat \<Rightarrow> int \<Rightarrow> rat" where
  "decimal_value sg c e =
     (if sg then - 1 else 1) * of_nat c * (if 0 \<le> e then 10 ^ nat e else 1 / 10 ^ nat (- e))"

text \<open>The integer part of \<open>c \<times> 10^(e+18)\<close>, in integer arithmetic.\<close>

definition trunc_scaled :: "nat \<Rightarrow> int \<Rightarrow> int" where
  "trunc_scaled c e =
     (if 0 \<le> e + 18 then int c * 10 ^ nat (e + 18) else int (c div 10 ^ nat (- e - 18)))"

section \<open>Inputs for the examples\<close>

text \<open>The network that answers every request with the status code and the JSON body given.\<close>

definition respond :: "nat \<Rightarrow> json \<Rightarrow> string \<Rightarrow> http_outcome" where
  "respond status data url = Response status (Some data)"

definition litecoin_response :: json where
  "litecoin_response = JObj [(''litecoin'', JObj [(''usd'', JStr ''2.5'')])]"

text \<open>The body CoinGecko sends with the status 429 when its rate limit is hit.\<close>

definition rate_limit_response :: json where
  "rate_limit_response =
     JObj [(''status'', JObj [(''error_code'', JInt 429),
                              (''error_message'', JStr ''Too Many Requests'')])]"

text \<open>A response whose record for \<^verbatim>\<open>litecoin\<close> has no \<^verbatim>\<open>usd\<close> field.\<close>

definition empty_record_response :: json where
  "empty_record_response = JObj [(''litecoin'', JObj [])]"

text \<open>The response that quotes the same USD value \<open>v\<close> for every identifier of the
  provider table.\<close>

definition uniform_response :: "json \<Rightarrow> json" where
  "uniform_response v = JObj (map (\<lambda>(s, cg_id). (cg_id, JObj [(''usd'', v)])) COINGECKO_IDS)"

section \<open>Facts about the model\<close>

subsection \<open>Counting digits\<close>

lemma ndigits_rec: "ndigits n = (if n < 10 then 1 else Suc (ndigits (n div 10)))"
  unfolding ndigits_def by (subst str_nat.simps) simp

lemma ndigits_pos: "0 < ndigits n"
  by (subst ndigits_rec) simp

lemma ndigits_lt: "n < 10 ^ ndigits n"
proof (induction n rule: str_nat.induct)
  case (1 n)
  show ?case
  proof (cases "n < 10")
    case True
    then show ?thesis by (subst ndigits_rec) simp
  next
    case False
    with 1 have "n div 10 < 10 ^ ndigits (n div 10)" by simp
    then have "n < 10 * 10 ^ ndigits (n div 10)" by arith
    with False show ?thesis by (subst ndigits_rec) simp
  qed
qed

lemma ndigits_ge: "n \<noteq> 0 \<Longrightarrow> 10 ^ (ndigits n - 1) \<le> n"
proof (induction n rule: str_nat.induct)
  case (1 n)
  show ?case
  proof (cases "n < 10")
    case True
    with 1(2) show ?thesis by (subst ndigits_rec) simp
  next
    case False
    then have nz: "n div 10 \<noteq> 0" by simp
    with 1 False have "10 ^ (ndigits (n div 10) - 1) \<le> n div 10" by simp
    then have "10 * 10 ^ (ndigits (n div 10) - 1) \<le> n" by arith
    moreover have "10 * (10::nat) ^ (ndigits (n div 10) - 1) = 10 ^ ndigits (n div 10)"
      using ndigits_pos [of "n div 10"] by (cases "ndigits (n div 10)") simp_all
    ultimately show ?thesis using False by (subst ndigits_rec) simp
  qed
qed

lemma ndigits_unique:
  assumes "10 ^ k \<le> n" and "n < 10 ^ Suc k"
  shows "ndigits n = Suc k"
proof -
  have nz: "n \<noteq> 0" using assms(1) by (cases "n = 0") simp_all
  have "(10::nat) ^ (ndigits n - 1) < 10 ^ Suc k"
    using ndigits_ge [OF nz] assms(2) by (rule le_less_trans)
  then have a: "ndigits n - 1 < Suc k" by (simp only: power_strict_increasing_iff rel_simps)
  have "(10::nat) ^ k < 10 ^ ndigits n"
    using assms(1) ndigits_lt [of n] by (rule le_less_trans)
  then have b: "k < ndigits n" by (simp only: power_strict_increasing_iff rel_simps)
  from a b show ?thesis by arith
qed

lemma ndigits_mult_pow: "c \<noteq> 0 \<Longrightarrow> ndigits (c * 10 ^ k) = ndigits c + k"
proof -
  assume nz: "c \<noteq> 0"
  obtain m where m: "ndigits c = Suc m" using ndigits_pos [of c] by (cases "ndigits c") auto
  have "10 ^ m \<le> c" using ndigits_ge [OF nz] m by simp
  then have lo: "10 ^ (m + k) \<le> c * 10 ^ k" by (simp add: power_add)
  have "c < 10 ^ Suc m" using ndigits_lt [of c] m by simp
  then have "c * 10 ^ k < 10 ^ Suc m * 10 ^ k" by simp
  then have hi: "c * 10 ^ k < 10 ^ Suc (m + k)" by (simp add: power_add)
  from ndigits_unique [OF lo hi] m show ?thesis by simp
qed

subsection \<open>Fitting a result to the context\<close>

lemma Etiny_le_Etop: "Etiny \<le> Etop"
  by (simp add: Etiny_def Etop_def Emin_def Emax_def prec_def)

lemma ndigits_le: "n < 10 ^ m \<Longrightarrow> 0 < m \<Longrightarrow> ndigits n \<le> m"
proof (cases "n = 0")
  case True
  assume "0 < m"
  then show ?thesis using True by (subst ndigits_rec) simp
next
  case False
  assume "n < 10 ^ m"
  with ndigits_ge [OF False] have "(10::nat) ^ (ndigits n - 1) < 10 ^ m"
    by (rule le_less_trans)
  then have "ndigits n - 1 < m" by (simp only: power_strict_increasing_iff rel_simps)
  then show ?thesis by arith
qed

lemma Decimal_fix_zero: "Decimal_fix sg 0 e = Inr (Finite sg 0 (min (max e Etiny) Emax))"
  by (simp add: Decimal_fix_def)

lemma Decimal_fix_unchanged:
  assumes "c \<noteq> 0" and "ndigits c \<le> prec" and "Etiny \<le> e"
    and "int (ndigits c) + e - int prec \<le> Etop"
  shows "Decimal_fix sg c e = Inr (Finite sg c e)"
  using assms by (simp add: Decimal_fix_def Let_def)

lemma round_up_zeros: "0 < k \<Longrightarrow> c mod 10 ^ k = 0 \<Longrightarrow> \<not> round_up c k"
  by (simp add: round_up_def Let_def)

lemma Decimal_fix_zeros:
  assumes "c \<noteq> 0" and "prec < ndigits c" and "c mod 10 ^ (ndigits c - prec) = 0"
    and "Etiny \<le> int (ndigits c) + e - int prec"
    and "int (ndigits c) + e - int prec \<le> Etop"
  shows "Decimal_fix sg c e =
         Inr (Finite sg (c div 10 ^ (ndigits c - prec)) (e + int (ndigits c - prec)))"
proof -
  have k: "0 < ndigits c - prec" using assms(2) by simp
  have nr: "\<not> round_up c (ndigits c - prec)" using round_up_zeros [OF k assms(3)] .
  have e: "e < int (ndigits c) + e - int prec" using assms(2) by simp
  have d: "nat (int (ndigits c) + e - (int (ndigits c) + e - int prec)) = prec" by simp
  show ?thesis
    using assms(1,4,5) e nr
    by (simp add: Decimal_fix_def Let_def d)
qed

lemma round_up_one: "\<not> round_up (Suc 0) (Suc 0)"
  by (simp add: round_up_def Let_def)

lemma ndigits_one: "ndigits (Suc 0) = Suc 0"
  by (subst ndigits_rec) simp

lemma Decimal_fix_subnormal:
  assumes "c \<noteq> 0" and "int (ndigits c) + e - int prec < Etiny" and "e < Etiny"
  shows "\<exists>c'. Decimal_fix sg c e = Inr (Finite sg c' Etiny) \<and> c' < 10 ^ prec"
proof (cases "int (ndigits c) + e - Etiny < 0")
  case True
  with assms Etiny_le_Etop have "Decimal_fix sg c e = Inr (Finite sg 0 Etiny)"
    by (simp add: Decimal_fix_def Let_def ndigits_one round_up_one)
  then show ?thesis by simp
next
  case False
  define d where "d = nat (int (ndigits c) + e - Etiny)"
  define k where "k = ndigits c - d"
  have dn: "d < ndigits c" using assms(3) False by (simp add: d_def)
  have dp: "d < prec" using assms(2) False by (simp add: d_def)
  have "c < 10 ^ (d + k)" using ndigits_lt [of c] dn by (simp add: k_def)
  then have "c < 10 ^ k * 10 ^ d" by (simp add: power_add mult.commute)
  then have q: "c div 10 ^ k < 10 ^ d" by (simp add: less_mult_imp_div_less mult.commute)
  have "(10::nat) ^ Suc d \<le> 10 ^ prec" using dp by (intro power_increasing) simp_all
  moreover have "c div 10 ^ k + 1 < 10 * 10 ^ d" using q by arith
  ultimately have q1: "c div 10 ^ k + 1 < 10 ^ prec" by simp
  then have q0: "c div 10 ^ k < 10 ^ prec" by simp
  have pp: "0 < prec" by (simp add: prec_def)
  have nt: "\<not> prec < ndigits (c div 10 ^ k + 1)"
    using ndigits_le [OF q1 pp] by simp
  have "Decimal_fix sg c e =
        Inr (Finite sg (if round_up c k then c div 10 ^ k + 1 else c div 10 ^ k) Etiny)"
    using assms False Etiny_le_Etop nt
    by (simp add: Decimal_fix_def Let_def d_def [symmetric] k_def [symmetric])
  with q0 q1 show ?thesis by simp
qed

subsection \<open>Scaling by \<open>10^18\<close>\<close>

lemma shifted_int:
  assumes "j \<le> 18"
  shows "(if 0 \<le> e + int j then int (c * 10 ^ (18 - j)) * 10 ^ nat (e + int j)
          else int ((c * 10 ^ (18 - j)) div 10 ^ nat (- (e + int j)))) = trunc_scaled c e"
proof -
  consider (a) "0 \<le> e + int j" | (b) "e + int j < 0" "0 \<le> e + 18" | (c) "e + 18 < 0"
    using assms by linarith
  then show ?thesis
  proof cases
    case a
    then have "nat (e + 18) = (18 - j) + nat (e + int j)" using assms by simp
    then have "(10::int) ^ nat (e + 18) = 10 ^ (18 - j) * 10 ^ nat (e + int j)"
      by (simp add: power_add)
    with a assms show ?thesis by (simp add: trunc_scaled_def)
  next
    case b
    define m where "m = nat (- (e + int j))"
    define r where "r = nat (e + 18)"
    have "18 - j = r + m" using b assms by (simp add: m_def r_def)
    then have "c * 10 ^ (18 - j) div 10 ^ m = c * 10 ^ r" by (simp add: power_add)
    with b show ?thesis by (simp add: trunc_scaled_def m_def r_def)
  next
    case c
    define m where "m = nat (- e - 18)"
    have "nat (- (e + int j)) = (18 - j) + m" using c assms by (simp add: m_def)
    then have "c * 10 ^ (18 - j) div 10 ^ nat (- (e + int j)) =
               c * 10 ^ (18 - j) div (10 ^ (18 - j) * 10 ^ m)"
      by (simp add: power_add)
    also have "\<dots> = c div 10 ^ m"
      by (simp add: div_mult2_eq)
    finally show ?thesis using c assms by (simp add: trunc_scaled_def m_def)
  qed
qed

lemma scaled_value:
  "decimal_value sg c e * 10 ^ 18 =
   (if sg then - 1 else 1) *
   (if 0 \<le> e + 18 then of_nat c * 10 ^ nat (e + 18) else of_nat c / 10 ^ nat (- e - 18))"
proof -
  consider (a) "0 \<le> e" | (b) "e < 0" "0 \<le> e + 18" | (c) "e + 18 < 0" by linarith
  then show ?thesis
  proof cases
    case a
    then have "nat (e + 18) = nat e + 18" by simp
    with a show ?thesis by (simp add: decimal_value_def power_add)
  next
    case b
    then have "18 = nat (- e) + nat (e + 18)" by simp
    then have p: "(10::rat) ^ 18 = 10 ^ nat (- e) * 10 ^ nat (e + 18)"
      by (simp only: power_add [symmetric])
    show ?thesis unfolding decimal_value_def p using b by simp
  next
    case c
    then have "nat (- e) = nat (- e - 18) + 18" by simp
    then have p: "(10::rat) ^ nat (- e) = 10 ^ nat (- e - 18) * 10 ^ 18"
      by (simp only: power_add)
    show ?thesis unfolding decimal_value_def p using c by simp
  qed
qed

lemma floor_scaled: "\<lfloor>decimal_value False c e * 10 ^ 18\<rfloor> = trunc_scaled c e"
proof (cases "0 \<le> e + 18")
  case True
  have "(of_nat c * 10 ^ nat (e + 18) :: rat) = of_int (int c * 10 ^ nat (e + 18))" by simp
  with True show ?thesis by (simp only: scaled_value trunc_scaled_def if_True if_False floor_of_int mult_1)
next
  case False
  have "(of_nat c / 10 ^ nat (- e - 18) :: rat) = of_nat c / of_nat (10 ^ nat (- e - 18))" by simp
  then have "\<lfloor>(of_nat c / 10 ^ nat (- e - 18) :: rat)\<rfloor> = int (c div 10 ^ nat (- e - 18))"
    by (simp only: floor_divide_of_nat_eq)
  with False show ?thesis by (simp only: scaled_value trunc_scaled_def if_True if_False mult_1)
qed

lemma ceiling_scaled: "\<lceil>decimal_value True c e * 10 ^ 18\<rceil> = - trunc_scaled c e"
proof -
  have "decimal_value True c e * 10 ^ 18 = - (decimal_value False c e * 10 ^ 18)"
    by (simp add: decimal_value_def)
  then show ?thesis by (simp only: ceiling_minus floor_scaled)
qed

lemma Decimal_int_tiny:
  assumes "c' < 10 ^ prec"
  shows "Decimal_int (Finite sg c' Etiny) = Inr 0"
proof -
  have neg: "\<not> 0 \<le> Etiny" by (simp add: Etiny_def Emin_def prec_def)
  have "prec \<le> nat (- Etiny)" by (simp add: Etiny_def Emin_def prec_def)
  then have "(10::nat) ^ prec \<le> 10 ^ nat (- Etiny)" by (intro power_increasing) simp_all
  with assms have "c' < 10 ^ nat (- Etiny)" by (rule less_le_trans)
  then have "c' div 10 ^ nat (- Etiny) = 0" by simp
  with neg show ?thesis by simp
qed

lemma Decimal_mul_scale:
  "Decimal_mul (Finite sg c e) (Decimal_of_int (10 ^ 18)) = Decimal_fix sg (c * 10 ^ 18) e"
  by (simp add: Decimal_mul_def Decimal_of_int_def is_snan_def is_nan_def)

lemma Decimal_int_Finite:
  "Decimal_int (Finite sg c e) =
   Inr ((if sg then - 1 else 1) *
        (if 0 \<le> e then int c * 10 ^ nat e else int (c div 10 ^ nat (- e))))"
  by simp

lemma compute_scaled_Finite:
  "compute_scaled (Some (Finite sg c e)) =
   (case Decimal_fix sg (c * 10 ^ 18) e of
      Inl err \<Rightarrow> Inl err
    | Inr m \<Rightarrow> (case Decimal_int m of Inl err \<Rightarrow> Inl err | Inr i \<Rightarrow> Inr (PyInt i)))"
  unfolding compute_scaled_def option.case Decimal_mul_scale by (rule refl)

lemma compute_scaled_exact:
  assumes dg: "ndigits c \<le> prec" and rg: "int (ndigits c) + e + 17 \<le> Emax"
  shows "compute_scaled (Some (Finite sg c e)) =
         Inr (PyInt ((if sg then - 1 else 1) * trunc_scaled c e))"
proof (cases "c = 0")
  case True
  have "trunc_scaled 0 e = 0" by (simp add: trunc_scaled_def)
  with True show ?thesis
    unfolding compute_scaled_Finite by (simp add: Decimal_fix_zero)
next
  case False
  define C where "C = c * 10 ^ 18"
  have Cnz: "C \<noteq> 0" using False by (simp add: C_def)
  have nC: "ndigits C = ndigits c + 18" unfolding C_def using False by (rule ndigits_mult_pow)
  have top: "int (ndigits C) + e - int prec \<le> Etop"
    using rg by (simp add: nC Etop_def)
  consider (sub) "e < Etiny" "int (ndigits C) + e - int prec < Etiny"
    | (same) "ndigits C \<le> prec" "Etiny \<le> e"
    | (zeros) "prec < ndigits C" "Etiny \<le> int (ndigits C) + e - int prec"
    by linarith
  then have "\<exists>m. Decimal_fix sg C e = Inr m \<and>
                 Decimal_int m = Inr ((if sg then - 1 else 1) * trunc_scaled c e)"
  proof cases
    case sub
    from Decimal_fix_subnormal [OF Cnz sub(2) sub(1)] obtain c'
      where c': "Decimal_fix sg C e = Inr (Finite sg c' Etiny)" "c' < 10 ^ prec" by blast
    have e18: "\<not> 0 \<le> e + 18" using sub(1) by (simp add: Etiny_def Emin_def prec_def)
    have "prec \<le> nat (- e - 18)" using sub(1) by (simp add: Etiny_def Emin_def prec_def)
    then have "(10::nat) ^ prec \<le> 10 ^ nat (- e - 18)" by (intro power_increasing) simp_all
    moreover have "(10::nat) ^ ndigits c \<le> 10 ^ prec" using dg by (intro power_increasing) simp_all
    ultimately have "(10::nat) ^ ndigits c \<le> 10 ^ nat (- e - 18)" by (rule order_trans [rotated])
    with ndigits_lt [of c] have "c < 10 ^ nat (- e - 18)" by (rule less_le_trans)
    then have "c div 10 ^ nat (- e - 18) = 0" by simp
    with e18 have "trunc_scaled c e = 0" by (simp add: trunc_scaled_def)
    with c' Decimal_int_tiny [OF c'(2)] show ?thesis by simp
  next
    case same
    have "Decimal_fix sg C e = Inr (Finite sg C e)"
      using Cnz same top by (rule Decimal_fix_unchanged)
    moreover have "(if 0 \<le> e then int C * 10 ^ nat e else int (C div 10 ^ nat (- e))) =
                   trunc_scaled c e"
      using shifted_int [of 0 e c] by (simp add: C_def split: if_splits)
    ultimately show ?thesis by (simp only: Decimal_int_Finite) simp
  next
    case zeros
    define k where "k = ndigits C - prec"
    have k18: "k \<le> 18" using dg by (simp add: k_def nC)
    have split: "(10::nat) ^ 18 = 10 ^ (18 - k) * 10 ^ k"
      using k18 by (simp only: power_add [symmetric]) simp
    have Ck: "C = c * 10 ^ (18 - k) * 10 ^ k" unfolding C_def split by simp
    have md: "C mod 10 ^ (ndigits C - prec) = 0" unfolding k_def [symmetric] by (subst Ck) simp
    have dv: "C div 10 ^ k = c * 10 ^ (18 - k)" by (subst Ck) simp
    have "Decimal_fix sg C e = Inr (Finite sg (c * 10 ^ (18 - k)) (e + int k))"
      using Decimal_fix_zeros [OF Cnz zeros(1) md zeros(2) top]
      unfolding k_def [symmetric] dv .
    moreover note shifted_int [OF k18, of e c]
    ultimately show ?thesis by (simp only: Decimal_int_Finite) simp
  qed
  then show ?thesis unfolding compute_scaled_Finite C_def by auto
qed

subsection \<open>The loop of \<open>fetch_prices\<close>\<close>

lemma price_loop_unchanged:
  "price_loop ids data syms ps = Inr ps' \<Longrightarrow> s \<notin> set syms \<Longrightarrow> map_of ps' s = map_of ps s"
proof (induction syms arbitrary: ps)
  case Nil
  then show ?case by simp
next
  case (Cons x rest)
  from Cons.prems(1) obtain p where p: "lookup_price ids data x = Inr p"
    and r: "price_loop ids data rest (AList.update x p ps) = Inr ps'"
    by (auto split: sum.splits)
  from Cons.prems(2) have "s \<noteq> x" "s \<notin> set rest" by auto
  with Cons.IH [OF r] show ?case by (simp add: update_conv')
qed

lemma price_loop_stored:
  "price_loop ids data syms ps = Inr ps' \<Longrightarrow> s \<in> set syms \<Longrightarrow>
   \<exists>p. lookup_price ids data s = Inr p \<and> map_of ps' s = Some p"
proof (induction syms arbitrary: ps)
  case Nil
  then show ?case by simp
next
  case (Cons x rest)
  from Cons.prems(1) obtain p where p: "lookup_price ids data x = Inr p"
    and r: "price_loop ids data rest (AList.update x p ps) = Inr ps'"
    by (auto split: sum.splits)
  show ?case
  proof (cases "s \<in> set rest")
    case True
    with Cons.IH [OF r] show ?thesis by simp
  next
    case False
    with Cons.prems(2) have "s = x" by simp
    with price_loop_unchanged [OF r False] p show ?thesis by (simp add: update_conv')
  qed
qed

lemma price_loop_keys:
  "price_loop ids data syms ps = Inr ps' \<Longrightarrow> fst ` set ps' = fst ` set ps \<union> set syms"
proof (induction syms arbitrary: ps)
  case Nil
  then show ?case by simp
next
  case (Cons x rest)
  from Cons.prems(1) obtain p where
    r: "price_loop ids data rest (AList.update x p ps) = Inr ps'"
    by (auto split: sum.splits)
  from Cons.IH [OF r] show ?case by (auto simp add: dom_update)
qed

lemma price_loop_distinct:
  "price_loop ids data syms ps = Inr ps' \<Longrightarrow> distinct (map fst ps) \<Longrightarrow> distinct (map fst ps')"
proof (induction syms arbitrary: ps)
  case Nil
  then show ?case by simp
next
  case (Cons x rest)
  from Cons.prems(1) obtain p where
    r: "price_loop ids data rest (AList.update x p ps) = Inr ps'"
    by (auto split: sum.splits)
  from Cons.IH [OF r distinct_update [OF Cons.prems(2)]] show ?case .
qed

lemma price_loop_returns:
  "(\<And>s. s \<in> set syms \<Longrightarrow> \<exists>p. lookup_price ids data s = Inr p) \<Longrightarrow>
   \<exists>ps'. price_loop ids data syms ps = Inr ps'"
proof (induction syms arbitrary: ps)
  case Nil
  then show ?case by simp
next
  case (Cons x rest)
  from Cons.prems [of x] obtain p where p: "lookup_price ids data x = Inr p" by auto
  have "\<exists>ps'. price_loop ids data rest (AList.update x p ps) = Inr ps'"
    by (rule Cons.IH) (simp add: Cons.prems)
  with p show ?case by simp
qed

lemma price_loop_raises:
  "price_loop ids data syms ps = Inl err \<Longrightarrow> \<exists>s \<in> set syms. lookup_price ids data s = Inl err"
proof (induction syms arbitrary: ps)
  case Nil
  then show ?case by simp
next
  case (Cons x rest)
  show ?case
  proof (cases "lookup_price ids data x")
    case (Inl e')
    with Cons.prems show ?thesis by simp
  next
    case (Inr p)
    with Cons.prems have "price_loop ids data rest (AList.update x p ps) = Inl err" by simp
    from Cons.IH [OF this] show ?thesis by auto
  qed
qed

subsection \<open>The output loop\<close>

lemma py_str_cases: "py_str v = Inr (format_value v) \<or> py_str v = Inl ValueError"
  by (cases v) (simp_all add: py_str_int_def)

lemma print_line_Inr:
  "print_line symbol address scaled = Inr line \<Longrightarrow>
   line = format_line symbol address scaled \<and> py_str scaled = Inr (format_value scaled)"
  using py_str_cases [of scaled] by (auto simp add: print_line_def format_line_def)

lemma print_line_Inl: "print_line symbol address scaled = Inl err \<Longrightarrow> err = ValueError"
  using py_str_cases [of scaled] by (auto simp add: print_line_def)

lemma print_line_printable:
  "py_str scaled = Inr (format_value scaled) \<Longrightarrow>
   print_line symbol address scaled = Inr (format_line symbol address scaled)"
  by (simp add: print_line_def format_line_def)

lemma py_str_int_small:
  "ndigits (nat \<bar>i\<bar>) \<le> max_str_digits \<Longrightarrow> py_str_int i = Inr (str_int i)"
  by (simp add: py_str_int_def)

lemma output_loop_step:
  assumes "map_of prices symbol = Some p" and "compute_scaled p = Inr scaled"
    and "py_str scaled = Inr (format_value scaled)"
  shows "output_loop prices ((symbol, address) # rest) =
         (format_line symbol address scaled # fst (output_loop prices rest),
          snd (output_loop prices rest))"
  using assms by (simp add: print_line_printable split: prod.splits)

lemma output_loop_lines:
  "output_loop prices tokens = (ls, r) \<Longrightarrow>
   length ls \<le> length tokens \<and>
   (\<forall>i < length ls. \<exists>p scaled.
        map_of prices (fst (tokens ! i)) = Some p \<and> compute_scaled p = Inr scaled \<and>
        py_str scaled = Inr (format_value scaled) \<and>
        ls ! i = format_line (fst (tokens ! i)) (snd (tokens ! i)) scaled)"
proof (induction tokens arbitrary: ls r)
  case Nil
  then show ?case by simp
next
  case (Cons t rest)
  obtain symbol address where t: "t = (symbol, address)" by (cases t)
  show ?case
  proof (cases "map_of prices symbol")
    case None
    with Cons.prems t show ?thesis by simp
  next
    case (Some p)
    show ?thesis
    proof (cases "compute_scaled p")
      case (Inl e')
      with Cons.prems t Some show ?thesis by simp
    next
      case (Inr scaled)
      show ?thesis
      proof (cases "print_line symbol address scaled")
        case (Inl e')
        with Cons.prems t Some Inr show ?thesis by simp
      next
        case pl: (Inr line)
        from print_line_Inr [OF pl] have line: "line = format_line symbol address scaled"
          and ok: "py_str scaled = Inr (format_value scaled)" by simp_all
        obtain ls' r' where rest: "output_loop prices rest = (ls', r')"
          by (cases "output_loop prices rest")
        with Cons.prems t Some Inr pl line
        have ls: "ls = format_line symbol address scaled # ls'" by simp
        from Cons.IH [OF rest] have len: "length ls' \<le> length rest"
          and each: "\<And>i. i < length ls' \<Longrightarrow> \<exists>p scaled.
              map_of prices (fst (rest ! i)) = Some p \<and> compute_scaled p = Inr scaled \<and>
              py_str scaled = Inr (format_value scaled) \<and>
              ls' ! i = format_line (fst (rest ! i)) (snd (rest ! i)) scaled"
          by auto
        have "\<exists>p scaled.
              map_of prices (fst ((t # rest) ! i)) = Some p \<and> compute_scaled p = Inr scaled \<and>
              py_str scaled = Inr (format_value scaled) \<and>
              ls ! i = format_line (fst ((t # rest) ! i)) (snd ((t # rest) ! i)) scaled"
          if "i < length ls" for i
        proof (cases i)
          case 0
          with t Some Inr ls ok show ?thesis by simp
        next
          case (Suc j)
          with that ls have "j < length ls'" by simp
          from each [OF this] Suc ls show ?thesis by simp
        qed
        with len ls show ?thesis by simp
      qed
    qed
  qed
qed

lemma output_loop_map:
  "(\<And>s. s \<in> fst ` set tokens \<Longrightarrow>
        \<exists>p. map_of prices s = Some p \<and> compute_scaled p = Inr (f s) \<and>
            py_str (f s) = Inr (format_value (f s))) \<Longrightarrow>
   output_loop prices tokens = (map (\<lambda>t. format_line (fst t) (snd t) (f (fst t))) tokens, None)"
proof (induction tokens)
  case Nil
  then show ?case by simp
next
  case (Cons t rest)
  obtain symbol address where t: "t = (symbol, address)" by (cases t)
  from Cons.prems [of symbol] t obtain p where
    p: "map_of prices symbol = Some p" "compute_scaled p = Inr (f symbol)"
      "py_str (f symbol) = Inr (format_value (f symbol))" by auto
  have "output_loop prices rest =
        (map (\<lambda>t. format_line (fst t) (snd t) (f (fst t))) rest, None)"
  proof (rule Cons.IH)
    fix s assume "s \<in> fst ` set rest"
    then have "s \<in> fst ` set (t # rest)" by auto
    then show "\<exists>p. map_of prices s = Some p \<and> compute_scaled p = Inr (f s) \<and>
                  py_str (f s) = Inr (format_value (f s))"
      by (rule Cons.prems)
  qed
  with output_loop_step [OF p, of address rest] t show ?case by simp
qed

subsection \<open>A whole run\<close>

lemma script_map:
  assumes net: "net (request_url ids (map fst tokens)) = Response status (Some data)"
    and each: "\<And>s. s \<in> fst ` set tokens \<Longrightarrow>
                 \<exists>p. lookup_price ids data s = Inr p \<and> compute_scaled p = Inr (f s) \<and>
                     py_str (f s) = Inr (format_value (f s))"
  shows "script ids tokens net =
         (map (\<lambda>t. format_line (fst t) (snd t) (f (fst t))) tokens, None)"
proof -
  have "\<exists>ps. price_loop ids data (map fst tokens) [] = Inr ps"
  proof (rule price_loop_returns)
    fix s assume "s \<in> set (map fst tokens)"
    then have "s \<in> fst ` set tokens" by simp
    from each [OF this] show "\<exists>p. lookup_price ids data s = Inr p" by blast
  qed
  then obtain ps where ps: "price_loop ids data (map fst tokens) [] = Inr ps" ..
  have "output_loop ps tokens =
        (map (\<lambda>t. format_line (fst t) (snd t) (f (fst t))) tokens, None)"
  proof (rule output_loop_map)
    fix s assume s: "s \<in> fst ` set tokens"
    then have "s \<in> set (map fst tokens)" by simp
    from price_loop_stored [OF ps this] obtain p where
      p: "lookup_price ids data s = Inr p" "map_of ps s = Some p" by blast
    from each [OF s] p(1) have "compute_scaled p = Inr (f s)"
      "py_str (f s) = Inr (format_value (f s))" by auto
    with p(2) show "\<exists>p. map_of ps s = Some p \<and> compute_scaled p = Inr (f s) \<and>
                       py_str (f s) = Inr (format_value (f s))" by blast
  qed
  with net ps show ?thesis by (simp add: script_def fetch_prices_def)
qed

lemma lookup_price_empty: "lookup_price ids (JObj []) s = Inr None"
  by (simp add: lookup_price_def split: option.splits)

lemma compute_scaled_None: "compute_scaled None = Inr (PyStr ''None'')"
  by (simp add: compute_scaled_def)

subsection \<open>Evaluating the examples\<close>

lemmas parse_defs =
  Decimal_of_str_def strip_def is_space_def parse_number_def parse_special_def
  parse_exponent_def is_digit_def nat_of_digits_def digit_val_def lower_def
  MAX_EMAX_def MIN_ETINY_def ndigits_def str_nat.simps

lemma Decimal_of_str_2_5: "Decimal_of_str ''2.5'' = Inr (Finite False 25 (- 1))"
  by (simp add: parse_defs)

lemma compute_scaled_2_5:
  "compute_scaled (Some (Finite False 25 (- 1))) = Inr (PyInt 2500000000000000000)"
proof -
  have "ndigits 25 = 2" by (simp add: ndigits_def str_nat.simps)
  then have "compute_scaled (Some (Finite False 25 (- 1))) =
             Inr (PyInt ((if False then - 1 else 1) * trunc_scaled 25 (- 1)))"
    by (intro compute_scaled_exact) (simp_all add: prec_def Emax_def)
  then show ?thesis by (simp add: trunc_scaled_def)
qed

lemma py_str_2_5: "py_str_int 2500000000000000000 = Inr (str_int 2500000000000000000)"
  by (rule py_str_int_small) (simp add: ndigits_def str_nat.simps max_str_digits_def)

lemma litecoin_lookup:
  "s \<in> fst ` set TOKENS \<Longrightarrow>
   lookup_price (map_of COINGECKO_IDS) litecoin_response s =
   Inr (if s = ''LTC'' then Some (Finite False 25 (- 1)) else None)"
  by (auto simp add: TOKENS_def COINGECKO_IDS_def lookup_price_def litecoin_response_def
        Decimal_of_str_2_5)

lemma litecoin_run:
  "main (respond 200 litecoin_response) =
     (map (\<lambda>t. format_line (fst t) (snd t)
               (if fst t = ''LTC'' then PyInt 2500000000000000000 else PyStr ''None''))
          TOKENS, None)"
  unfolding main_def
  by (rule script_map [where data = litecoin_response and status = 200])
     (auto simp add: respond_def litecoin_lookup compute_scaled_2_5 compute_scaled_None
        py_str_2_5)

lemma compute_scaled_shape:
  "compute_scaled p = Inr scaled \<Longrightarrow> scaled = PyStr ''None'' \<or> (\<exists>n. scaled = PyInt n)"
  by (auto simp add: compute_scaled_def split: option.splits sum.splits)

lemma script_lines:
  assumes "script ids tokens net = (ls, r)" and "i < length ls"
  shows "i < length tokens \<and>
         (\<exists>scaled. ls ! i = format_line (fst (tokens ! i)) (snd (tokens ! i)) scaled \<and>
                    (scaled = PyStr ''None'' \<or> (\<exists>n. scaled = PyInt n)))"
proof (cases "fetch_prices ids net (map fst tokens)")
  case (Inl err)
  with assms show ?thesis by (simp add: script_def)
next
  case (Inr prices)
  with assms(1) have out: "output_loop prices tokens = (ls, r)" by (simp add: script_def)
  from output_loop_lines [OF out] assms(2) obtain p scaled where
    "length ls \<le> length tokens" "compute_scaled p = Inr scaled"
    "ls ! i = format_line (fst (tokens ! i)) (snd (tokens ! i)) scaled"
    by blast
  with assms(2) compute_scaled_shape [of p scaled] show ?thesis by auto
qed

lemma rate_limit_lookup:
  "s \<in> fst ` set TOKENS \<Longrightarrow>
   lookup_price (map_of COINGECKO_IDS) rate_limit_response s = Inr None"
  by (auto simp add: TOKENS_def COINGECKO_IDS_def lookup_price_def rate_limit_response_def)

lemma TOKENS_length: "length TOKENS = 19"
  by (simp add: TOKENS_def)

subsection \<open>Looking a symbol up in a JSON object\<close>

lemma lookup_price_obj:
  "lookup_price ids (JObj kvs) s =
   (case ids s of
      None \<Rightarrow> Inr None
    | Some cg_id \<Rightarrow>
        if cg_id = [] then Inr None
        else (case map_of kvs cg_id of
                None \<Rightarrow> Inr None
              | Some entry \<Rightarrow>
                  (case usd_of entry of Inl err \<Rightarrow> Inl err | Inr d \<Rightarrow> Inr (Some d))))"
  by (simp add: lookup_price_def usd_of_def split: option.splits sum.splits)

lemma lookup_price_unmapped: "ids s = None \<Longrightarrow> lookup_price ids data s = Inr None"
  by (simp add: lookup_price_def)

lemma ids_nonempty: "map_of COINGECKO_IDS s = Some cg_id \<Longrightarrow> cg_id \<noteq> []"
  by (auto simp add: COINGECKO_IDS_def split: if_splits)

lemma tokens_mapped: "s \<in> fst ` set TOKENS \<Longrightarrow> \<exists>cg_id. map_of COINGECKO_IDS s = Some cg_id"
  by (auto simp add: TOKENS_def COINGECKO_IDS_def)

lemma script_complete:
  assumes net: "net (request_url ids (map fst tokens)) = Response status (Some data)"
    and each: "\<And>s. s \<in> fst ` set tokens \<Longrightarrow>
                 \<exists>p scaled. lookup_price ids data s = Inr p \<and> compute_scaled p = Inr scaled \<and>
                    py_str scaled = Inr (format_value scaled)"
  shows "\<exists>scaleds. length scaleds = length tokens \<and>
           script ids tokens net =
           (map2 (\<lambda>t scaled. format_line (fst t) (snd t) scaled) tokens scaleds, None)"
proof -
  define f where "f = (\<lambda>s. projr (compute_scaled (projr (lookup_price ids data s))))"
  have "script ids tokens net =
        (map (\<lambda>t. format_line (fst t) (snd t) (f (fst t))) tokens, None)"
  proof (rule script_map [where net = net and ids = ids and tokens = tokens and f = f, OF net])
    fix s assume "s \<in> fst ` set tokens"
    from each [OF this] obtain p scaled where
      "lookup_price ids data s = Inr p" "compute_scaled p = Inr scaled"
      "py_str scaled = Inr (format_value scaled)" by blast
    then show "\<exists>p. lookup_price ids data s = Inr p \<and> compute_scaled p = Inr (f s) \<and>
                  py_str (f s) = Inr (format_value (f s))"
      by (simp add: f_def)
  qed
  moreover have "map (\<lambda>t. format_line (fst t) (snd t) (f (fst t))) tokens =
                 map2 (\<lambda>t scaled. format_line (fst t) (snd t) scaled) tokens
                      (map (\<lambda>t. f (fst t)) tokens)"
    by (induction tokens) simp_all
  ultimately show ?thesis by (intro exI [of _ "map (\<lambda>t. f (fst t)) tokens"]) simp
qed

lemma empty_record_run: "main (respond 200 empty_record_response) = ([], Some KeyError)"
  by (simp add: main_def script_def fetch_prices_def respond_def TOKENS_def COINGECKO_IDS_def
        lookup_price_def empty_record_response_def)

lemma fetch_prices_Inr:
  "fetch_prices ids net symbols = Inr prices \<Longrightarrow>
   \<exists>status data. net (request_url ids symbols) = Response status (Some data) \<and>
                 price_loop ids data symbols [] = Inr prices"
  by (auto simp add: fetch_prices_def split: http_outcome.splits option.splits)

lemma empty_record_fetch:
  "fetch_prices (map_of COINGECKO_IDS) (respond 200 empty_record_response) [''LTC''] =
   Inl KeyError"
  by (simp add: fetch_prices_def respond_def COINGECKO_IDS_def lookup_price_def
        empty_record_response_def)

lemma request_ids_unmapped:
  "ids s = None \<Longrightarrow> request_ids ids (xs @ s # ys) = request_ids ids (xs @ ys)"
  by (simp add: request_ids_def)

lemma fetch_prices_unmapped:
  assumes "fetch_prices ids net symbols = Inr prices" and "s \<in> set symbols" and "ids s = None"
  shows "map_of prices s = Some None"
proof -
  from fetch_prices_Inr [OF assms(1)] obtain status data where
    "price_loop ids data symbols [] = Inr prices" by blast
  from price_loop_stored [OF this assms(2)]
    lookup_price_unmapped [where ids = ids and s = s and data = data, OF assms(3)]
  show ?thesis by auto
qed

lemma script_unmapped:
  assumes run: "script ids tokens net = (ls, r)" and i: "i < length ls"
    and s: "fst (tokens ! i) = s" and un: "ids s = None"
  shows "ls ! i = format_line s (snd (tokens ! i)) (PyStr ''None'')"
proof (cases "fetch_prices ids net (map fst tokens)")
  case (Inl err)
  with run i show ?thesis by (simp add: script_def)
next
  case (Inr prices)
  with run have out: "output_loop prices tokens = (ls, r)" by (simp add: script_def)
  from output_loop_lines [OF out] i obtain p scaled where
    len: "length ls \<le> length tokens" and p: "map_of prices (fst (tokens ! i)) = Some p"
    and sc: "compute_scaled p = Inr scaled"
    and l: "ls ! i = format_line (fst (tokens ! i)) (snd (tokens ! i)) scaled"
    by blast
  from i len have "i < length tokens" by simp
  then have "tokens ! i \<in> set tokens" by (rule nth_mem)
  then have "fst (tokens ! i) \<in> fst ` set tokens" by (rule imageI)
  with s have "s \<in> set (map fst tokens)" by simp
  from fetch_prices_unmapped [OF Inr this un] p s have "p = None" by simp
  with sc have "scaled = PyStr ''None''" by (simp add: compute_scaled_None)
  with l s show ?thesis by simp
qed

subsection \<open>The text of an integer\<close>

lemma digit_char_digit:
  assumes "d < 10"
  shows "is_digit (digit_char d) \<and> digit_val (digit_char d) = d"
proof -
  from assms have "d = 0 \<or> d = 1 \<or> d = 2 \<or> d = 3 \<or> d = 4 \<or> d = 5 \<or> d = 6 \<or> d = 7 \<or>
                   d = 8 \<or> d = 9" by arith
  then show ?thesis
    by (elim disjE) (simp_all add: digit_char_def is_digit_def digit_val_def)
qed

lemma nat_of_digits_snoc: "nat_of_digits (ds @ [c]) = 10 * nat_of_digits ds + digit_val c"
  by (simp add: nat_of_digits_def)

lemma str_nat_digits: "list_all is_digit (str_nat n) \<and> nat_of_digits (str_nat n) = n"
proof (induction n rule: str_nat.induct)
  case (1 n)
  show ?case
  proof (cases "n < 10")
    case True
    with digit_char_digit [OF True] show ?thesis
      by (subst (1 2) str_nat.simps) (simp add: nat_of_digits_def)
  next
    case False
    have "n mod 10 < 10" by simp
    from digit_char_digit [OF this] 1 [OF False] False show ?thesis
      by (subst (1 2) str_nat.simps) (simp add: nat_of_digits_snoc)
  qed
qed

lemma str_int_nonneg: "0 \<le> i \<Longrightarrow> str_int i = str_nat (nat i)"
  by (simp add: str_int_def)

lemma trunc_scaled_nonneg: "0 \<le> trunc_scaled c e"
  by (simp add: trunc_scaled_def)

lemma script_line_of_price:
  assumes fp: "fetch_prices ids net (map fst tokens) = Inr prices"
    and run: "script ids tokens net = (ls, r)" and i: "i < length ls"
    and p: "map_of prices (fst (tokens ! i)) = Some p"
    and sc: "compute_scaled p = Inr scaled"
  shows "ls ! i = format_line (fst (tokens ! i)) (snd (tokens ! i)) scaled"
proof -
  from fp run have out: "output_loop prices tokens = (ls, r)" by (simp add: script_def)
  from output_loop_lines [OF out] i obtain p' scaled' where
    "map_of prices (fst (tokens ! i)) = Some p'" "compute_scaled p' = Inr scaled'"
    "ls ! i = format_line (fst (tokens ! i)) (snd (tokens ! i)) scaled'"
    by blast
  with p sc show ?thesis by simp
qed

subsection \<open>Rounding a coefficient of more than 50 digits\<close>

lemma Decimal_fix_rounds:
  assumes "c \<noteq> 0" and "prec < ndigits c"
    and "Etiny \<le> int (ndigits c) + e - int prec"
    and "int (ndigits c) + e - int prec \<le> Etop"
    and "ndigits (c div 10 ^ (ndigits c - prec) + 1) \<le> prec"
  shows "Decimal_fix sg c e =
         Inr (Finite sg (if round_up c (ndigits c - prec)
                         then c div 10 ^ (ndigits c - prec) + 1
                         else c div 10 ^ (ndigits c - prec))
                (e + int (ndigits c - prec)))"
proof -
  have e: "e < int (ndigits c) + e - int prec" using assms(2) by simp
  have d: "nat (int (ndigits c) + e - (int (ndigits c) + e - int prec)) = prec" by simp
  show ?thesis
    using assms(1,3,4,5) e by (simp add: Decimal_fix_def Let_def d)
qed

lemma Decimal_fix_69_digits:
  assumes lo: "10 ^ 68 \<le> C" and hi: "C < 10 ^ 69" and q: "C div 10 ^ 19 + 1 < 10 ^ 50"
  shows "Decimal_fix sg C 0 =
         Inr (Finite sg (if round_up C 19 then C div 10 ^ 19 + 1 else C div 10 ^ 19) 19)"
proof -
  have hi': "C < 10 ^ Suc 68" using hi by simp
  have nd: "ndigits C = Suc 68" using lo hi' by (rule ndigits_unique)
  have k: "ndigits C - prec = 19" by (simp add: nd prec_def)
  have p1: "C \<noteq> 0" using lo by (cases "C = 0") simp_all
  have p2: "prec < ndigits C" by (simp add: nd prec_def)
  have p3: "Etiny \<le> int (ndigits C) + 0 - int prec"
    by (simp add: nd prec_def Etiny_def Emin_def)
  have p4: "int (ndigits C) + 0 - int prec \<le> Etop"
    by (simp add: nd prec_def Etop_def Emax_def)
  have k50: "ndigits C - 50 = 19" by (simp add: nd)
  have "ndigits (C div 10 ^ 19 + 1) \<le> 50" using q by (rule ndigits_le) simp
  then have p5: "ndigits (C div 10 ^ (ndigits C - prec) + 1) \<le> prec"
    unfolding prec_def k50 .
  from Decimal_fix_rounds [OF p1 p2 p3 p4 p5, of sg] show ?thesis unfolding k by simp
qed

lemma big_price_scaled:
  "compute_scaled (Some (Finite False (10 ^ 50 + 1) 0)) = Inr (PyInt (10 ^ 68))"
proof -
  define C :: nat where "C = (10 ^ 50 + 1) * 10 ^ 18"
  have r: "\<not> round_up C 19" by (simp add: round_up_def Let_def C_def)
  have q: "C div 10 ^ 19 = 10 ^ 49" by (simp add: C_def)
  have "Decimal_fix False C 0 = Inr (Finite False (10 ^ 49) 19)"
    using Decimal_fix_69_digits [of C False] r q by (simp add: C_def)
  then show ?thesis unfolding compute_scaled_Finite C_def by simp
qed

lemma rounded_up_price_scaled:
  "compute_scaled (Some (Finite False (10 ^ 50 + 9) 0)) = Inr (PyInt (10 ^ 68 + 10 ^ 19))"
proof -
  define C :: nat where "C = (10 ^ 50 + 9) * 10 ^ 18"
  have r: "round_up C 19" by (simp add: round_up_def Let_def C_def)
  have q: "C div 10 ^ 19 = 10 ^ 49" by (simp add: C_def)
  have "Decimal_fix False C 0 = Inr (Finite False (10 ^ 49 + 1) 19)"
    using Decimal_fix_69_digits [of C False] r q by (simp add: C_def)
  then show ?thesis unfolding compute_scaled_Finite C_def by simp
qed

subsection \<open>Negative prices\<close>

lemma decimal_value_sign:
  "0 \<le> decimal_value False c e" "decimal_value True c e = - decimal_value False c e"
  by (simp_all add: decimal_value_def)

lemma compute_scaled_trunc:
  assumes "ndigits c \<le> prec" and "int (ndigits c) + e + 17 \<le> Emax"
    and v: "v = decimal_value sg c e * 10 ^ 18"
  shows "compute_scaled (Some (Finite sg c e)) = Inr (PyInt (if v < 0 then \<lceil>v\<rceil> else \<lfloor>v\<rfloor>))"
proof (cases sg)
  case False
  then have "0 \<le> v" unfolding v using decimal_value_sign(1) [of c e] by simp
  moreover have "\<lfloor>v\<rfloor> = trunc_scaled c e" unfolding v using False floor_scaled by simp
  ultimately show ?thesis using compute_scaled_exact [OF assms(1,2), of sg] False by simp
next
  case True
  then have c: "\<lceil>v\<rceil> = - trunc_scaled c e" unfolding v using ceiling_scaled by simp
  have le: "v \<le> 0" unfolding v using True decimal_value_sign [of c e] by simp
  have "(if v < 0 then \<lceil>v\<rceil> else \<lfloor>v\<rfloor>) = \<lceil>v\<rceil>"
  proof (cases "v < 0")
    case False
    with le have "v = 0" by simp
    then show ?thesis by simp
  qed simp
  with c compute_scaled_exact [OF assms(1,2), of sg] True show ?thesis by simp
qed

lemma small_negative_scaled:
  "compute_scaled (Some (Finite True 15 (- 19))) = Inr (PyInt (- 1))"
proof -
  have n: "ndigits 15 = 2" by (simp add: ndigits_def str_nat.simps)
  have "compute_scaled (Some (Finite True 15 (- 19))) =
        Inr (PyInt ((if True then - 1 else 1) * trunc_scaled 15 (- 19)))"
    by (rule compute_scaled_exact) (simp_all add: n prec_def Emax_def)
  then show ?thesis by (simp add: trunc_scaled_def)
qed

lemma small_negative_value: "decimal_value True 15 (- 19) * 10 ^ 18 = - (3 / 2)"
  unfolding scaled_value by simp

lemma Decimal_of_str_small_negative:
  "Decimal_of_str ''-0.0000000000000000015'' = Inr (Finite True 15 (- 19))"
  by (simp add: parse_defs)

subsection \<open>Responses that quote every identifier\<close>

lemma map_of_swapped:
  "map_of xs s = Some k \<Longrightarrow> map_of (map (\<lambda>(s, k). (k, x)) xs) k = Some x"
  by (induction xs) (auto split: if_splits)

lemma uniform_lookup:
  assumes "s \<in> fst ` set TOKENS" and "Decimal_of_json v = Inr d"
  shows "lookup_price (map_of COINGECKO_IDS) (uniform_response v) s = Inr (Some d)"
proof -
  from tokens_mapped [OF assms(1)] obtain cg_id where
    cg: "map_of COINGECKO_IDS s = Some cg_id" by blast
  from map_of_swapped [OF cg, of "JObj [(''usd'', v)]"] cg ids_nonempty [OF cg] assms(2)
  show ?thesis by (simp add: uniform_response_def lookup_price_obj usd_of_def)
qed

lemma uniform_run:
  assumes "Decimal_of_json v = Inr d" and "compute_scaled (Some d) = Inr scaled"
    and "py_str scaled = Inr (format_value scaled)"
  shows "main (respond status (uniform_response v)) =
         (map (\<lambda>t. format_line (fst t) (snd t) scaled) TOKENS, None)"
  unfolding main_def
  by (rule script_map [where data = "uniform_response v" and status = status])
     (auto simp add: respond_def uniform_lookup assms)

lemma Decimal_of_json_zero: "Decimal_of_json (JInt 0) = Inr (Finite False 0 0)"
  by (simp add: py_str_int_def max_str_digits_def str_int_def digit_char_def parse_defs)

lemma py_str_zero: "py_str (PyInt 0) = Inr (format_value (PyInt 0))"
  by (simp add: py_str_int_small ndigits_def str_nat.simps max_str_digits_def)

lemma compute_scaled_zero: "compute_scaled (Some (Finite False 0 0)) = Inr (PyInt 0)"
proof -
  have n: "ndigits 0 = 1" by (simp add: ndigits_def str_nat.simps)
  have "compute_scaled (Some (Finite False 0 0)) =
        Inr (PyInt ((if False then - 1 else 1) * trunc_scaled 0 0))"
    by (rule compute_scaled_exact) (simp_all add: n prec_def Emax_def)
  then show ?thesis by (simp add: trunc_scaled_def)
qed

subsection \<open>Which exceptions the output loop can raise\<close>

lemma Decimal_fix_error: "Decimal_fix sg c e = Inl err \<Longrightarrow> err = Overflow"
  by (auto simp add: Decimal_fix_def Let_def split: if_splits)

lemma compute_scaled_error:
  assumes "compute_scaled p = Inl err"
  shows "err \<noteq> RequestException \<and> err \<noteq> JSONDecodeError"
proof (cases p)
  case None
  with assms show ?thesis by (simp add: compute_scaled_def)
next
  case (Some d)
  show ?thesis
  proof (cases "Decimal_mul d (Decimal_of_int (10 ^ 18))")
    case (Inl e')
    with assms Some have e: "err = e'" unfolding compute_scaled_def by simp
    from Inl have "e' = InvalidOperation \<or> e' = Overflow"
      by (auto simp add: Decimal_mul_def Decimal_of_int_def split: if_splits Decimal.splits
            dest: Decimal_fix_error)
    with e show ?thesis by auto
  next
    case (Inr m)
    with assms Some have "Decimal_int m = Inl err"
      unfolding compute_scaled_def by (simp split: sum.splits)
    then show ?thesis by (cases m) auto
  qed
qed

lemma output_loop_error:
  "output_loop prices tokens = (ls, Some err) \<Longrightarrow>
   err \<noteq> RequestException \<and> err \<noteq> JSONDecodeError"
proof (induction tokens arbitrary: ls)
  case Nil
  then show ?case by simp
next
  case (Cons t rest)
  obtain symbol address where t: "t = (symbol, address)" by (cases t)
  show ?case
  proof (cases "map_of prices symbol")
    case None
    with Cons.prems t show ?thesis by auto
  next
    case (Some p)
    show ?thesis
    proof (cases "compute_scaled p")
      case (Inl e')
      with Cons.prems t Some compute_scaled_error [OF Inl] show ?thesis by auto
    next
      case (Inr scaled)
      show ?thesis
      proof (cases "print_line symbol address scaled")
        case (Inl e')
        with Cons.prems t Some Inr print_line_Inl [OF Inl] show ?thesis by auto
      next
        case pl: (Inr line)
        obtain ls' r' where rest: "output_loop prices rest = (ls', r')"
          by (cases "output_loop prices rest")
        with Cons.prems t Some Inr pl have "r' = Some err" by simp
        with rest Cons.IH show ?thesis by simp
      qed
    qed
  qed
qed

lemma script_network_error:
  assumes "script ids tokens net = (ls, Some err)"
    and "err = RequestException \<or> err = JSONDecodeError"
  shows "ls = []"
proof (cases "fetch_prices ids net (map fst tokens)")
  case (Inl e')
  with assms(1) show ?thesis by (simp add: script_def)
next
  case (Inr prices)
  with assms(1) have "output_loop prices tokens = (ls, Some err)" by (simp add: script_def)
  from output_loop_error [OF this] assms(2) show ?thesis by auto
qed

subsection \<open>Scaled values that \<^verbatim>\<open>str\<close> accepts\<close>

lemma range_from_digits:
  "int (ndigits c) + e + 18 \<le> int max_str_digits \<Longrightarrow> int (ndigits c) + e + 17 \<le> Emax"
  by (simp add: max_str_digits_def Emax_def)

lemma trunc_scaled_digits:
  assumes "ndigits c \<le> prec" and "int (ndigits c) + e + 18 \<le> int max_str_digits"
  shows "ndigits (nat (trunc_scaled c e)) \<le> max_str_digits"
proof (cases "0 \<le> e + 18")
  case True
  then have n: "nat (trunc_scaled c e) = c * 10 ^ nat (e + 18)"
    by (simp add: trunc_scaled_def nat_mult_distrib nat_power_eq)
  show ?thesis
  proof (cases "c = 0")
    case True
    have "ndigits 0 = 1" by (subst ndigits_rec) simp
    with True n show ?thesis by (simp add: max_str_digits_def)
  next
    case False
    from ndigits_mult_pow [OF False, of "nat (e + 18)"] True assms(2) n
    show ?thesis by simp
  qed
next
  case False
  then have n: "nat (trunc_scaled c e) = c div 10 ^ nat (- e - 18)"
    by (simp add: trunc_scaled_def)
  have "c div 10 ^ nat (- e - 18) \<le> c" by (rule div_le_dividend)
  also have "c < 10 ^ ndigits c" by (rule ndigits_lt)
  finally have "ndigits (c div 10 ^ nat (- e - 18)) \<le> ndigits c"
    using ndigits_pos [of c] by (rule ndigits_le)
  with assms(1) n show ?thesis by (simp add: prec_def max_str_digits_def)
qed

lemma py_str_trunc_scaled:
  assumes "ndigits c \<le> prec" and "int (ndigits c) + e + 18 \<le> int max_str_digits"
  shows "py_str (PyInt (trunc_scaled c e)) = Inr (format_value (PyInt (trunc_scaled c e)))"
  using trunc_scaled_digits [OF assms] trunc_scaled_nonneg [of c e]
  by (simp add: py_str_int_small)

lemma ten_power_scaled:
  "compute_scaled (Some (Finite False 1 4282)) = Inr (PyInt (10 ^ 4300))"
proof -
  have "compute_scaled (Some (Finite False 1 4282)) =
        Inr (PyInt ((if False then - 1 else 1) * trunc_scaled 1 4282))"
    by (rule compute_scaled_exact) (simp_all add: ndigits_one prec_def Emax_def)
  moreover have "trunc_scaled 1 4282 = 10 ^ 4300"
    unfolding trunc_scaled_def by (simp del: power_numeral)
  ultimately show ?thesis by (simp del: power_numeral)
qed

lemma ten_power_digits: "ndigits (nat (10 ^ 4300)) = 4301"
proof -
  have "ndigits (1 * 10 ^ 4300) = ndigits 1 + 4300" by (rule ndigits_mult_pow) simp
  then have d: "ndigits (10 ^ 4300) = 4301" by (simp add: ndigits_one del: power_numeral)
  have n: "nat (10 ^ 4300) = 10 ^ 4300" by (simp add: nat_power_eq del: power_numeral)
  show ?thesis unfolding n by (rule d)
qed

lemma ten_power_text: "py_str (PyInt (10 ^ 4300)) = Inl ValueError"
proof -
  define i :: int where "i = 10 ^ 4300"
  have p: "0 \<le> i" unfolding i_def by (rule zero_le_power) simp
  have "ndigits (nat i) = 4301" unfolding i_def by (rule ten_power_digits)
  with p have "py_str (PyInt i) = Inl ValueError"
    by (simp add: py_str_int_def max_str_digits_def)
  then show ?thesis unfolding i_def .
qed

section \<open>The claims\<close>

text \<open>
  C1, as stated, fails: not every response mapping leads to output. When the record the
  response holds for \<^verbatim>\<open>litecoin\<close> has no \<^verbatim>\<open>usd\<close> field, line 63 raises \<^verbatim>\<open>KeyError\<close> inside
  \<open>fetch_prices\<close> and the run prints no line at all, for a table of 19 entries.
\<close>

theorem one_line_per_token_counterexample:
  "main (respond 200 empty_record_response) = ([], Some KeyError) \<and>
   length (fst (main (respond 200 empty_record_response))) \<noteq> length TOKENS"
  by (simp add: empty_record_run TOKENS_length)

text \<open>
  C1, amended. For every response mapping in which each record held for an identifier of
  the provider table has a USD field that \<^verbatim>\<open>Decimal\<close> accepts and whose scaled value
  converts to an integer that \<^verbatim>\<open>str\<close> accepts (at most 4300 digits), the run ends without
  an error and prints exactly one line per entry of the static token table, in table
  order, whether or not a price was found for a symbol (an identifier that the response
  does not hold is not constrained).
\<close>

theorem one_line_per_token:
  assumes net: "net (request_url (map_of COINGECKO_IDS) (map fst TOKENS)) =
                Response status (Some (JObj kvs))"
    and usable: "\<And>s cg_id entry.
        map_of COINGECKO_IDS s = Some cg_id \<Longrightarrow> map_of kvs cg_id = Some entry \<Longrightarrow>
        \<exists>d scaled. usd_of entry = Inr d \<and> compute_scaled (Some d) = Inr scaled \<and>
                   py_str scaled = Inr (format_value scaled)"
  shows "\<exists>scaleds. length scaleds = length TOKENS \<and>
           main net =
           (map2 (\<lambda>t scaled. format_line (fst t) (snd t) scaled) TOKENS scaleds, None)"
  unfolding main_def
proof (rule script_complete
    [where net = net and ids = "map_of COINGECKO_IDS" and tokens = TOKENS, OF net])
  fix s
  show "\<exists>p scaled. lookup_price (map_of COINGECKO_IDS) (JObj kvs) s = Inr p \<and>
                   compute_scaled p = Inr scaled \<and> py_str scaled = Inr (format_value scaled)"
  proof (cases "map_of COINGECKO_IDS s")
    case None
    then show ?thesis by (simp add: lookup_price_obj compute_scaled_None)
  next
    case (Some cg_id)
    show ?thesis
    proof (cases "map_of kvs cg_id")
      case None
      with Some show ?thesis by (simp add: lookup_price_obj compute_scaled_None)
    next
      case (Some entry)
      from usable [OF \<open>map_of COINGECKO_IDS s = Some cg_id\<close> Some] obtain d scaled where
        "usd_of entry = Inr d" "compute_scaled (Some d) = Inr scaled"
        "py_str scaled = Inr (format_value scaled)" by blast
      with Some \<open>map_of COINGECKO_IDS s = Some cg_id\<close> show ?thesis
        by (simp add: lookup_price_obj compute_scaled_None)
    qed
  qed
qed

theorem one_line_per_token_witness:
  "\<exists>scaleds. length scaleds = length TOKENS \<and>
     main (respond 200 litecoin_response) =
     (map2 (\<lambda>t scaled. format_line (fst t) (snd t) scaled) TOKENS scaleds, None)"
proof (rule one_line_per_token [where status = 200 and kvs = "[(''litecoin'', JObj [(''usd'', JStr ''2.5'')])]"])
  show "respond 200 litecoin_response (request_url (map_of COINGECKO_IDS) (map fst TOKENS)) =
        Response 200 (Some (JObj [(''litecoin'', JObj [(''usd'', JStr ''2.5'')])]))"
    by (simp add: respond_def litecoin_response_def)
next
  fix s cg_id entry
  assume "map_of [(''litecoin'', JObj [(''usd'', JStr ''2.5'')])] cg_id = Some entry"
  then have "entry = JObj [(''usd'', JStr ''2.5'')]" by (simp split: if_splits)
  then show "\<exists>d scaled. usd_of entry = Inr d \<and> compute_scaled (Some d) = Inr scaled \<and>
                     py_str scaled = Inr (format_value scaled)"
    by (simp add: usd_of_def Decimal_of_str_2_5 compute_scaled_2_5 py_str_2_5)
qed

text \<open>
  C2, as stated, fails in its last case: a record without a USD field is not recorded as
  an absent price. Line 63 reads \<^verbatim>\<open>data[cg_id]["usd"]\<close> without a check, so for the response
  \<^verbatim>\<open>{"litecoin": {}}\<close> and the symbols \<^verbatim>\<open>["LTC"]\<close> \<open>fetch_prices\<close> raises \<^verbatim>\<open>KeyError\<close> and
  returns no mapping.
\<close>

theorem fetch_prices_presence_counterexample:
  "fetch_prices (map_of COINGECKO_IDS) (respond 200 empty_record_response) [''LTC''] =
     Inl KeyError \<and>
   py_getitem (JObj []) ''usd'' = Inl KeyError"
  by (simp add: empty_record_fetch)

text \<open>
  C2, amended. For every symbol sequence and every response mapping: when each record
  the response holds for the identifier of an input symbol has a USD field that
  \<^verbatim>\<open>Decimal\<close> accepts, \<open>fetch_prices\<close> returns a mapping over exactly the input symbols (each
  once), in which a symbol has the price \<open>d\<close> if and only if the symbol has a provider
  identifier, the identifier is a key of the response and \<open>d\<close> is the decimal of its
  record's USD field, and has the absent price if and only if it has no identifier or
  the identifier is not a key of the response. Those two cases never raise: the only
  exception \<open>fetch_prices\<close> can raise on a response mapping comes from the USD field of
  a record held for an input symbol's identifier.
\<close>

theorem fetch_prices_presence:
  assumes net: "net (request_url (map_of COINGECKO_IDS) symbols) =
                Response status (Some (JObj kvs))"
  shows "((\<forall>s \<in> set symbols. \<forall>cg_id entry.
             map_of COINGECKO_IDS s = Some cg_id \<longrightarrow> map_of kvs cg_id = Some entry \<longrightarrow>
             (\<exists>d. usd_of entry = Inr d)) \<longrightarrow>
          (\<exists>prices. fetch_prices (map_of COINGECKO_IDS) net symbols = Inr prices \<and>
             fst ` set prices = set symbols \<and> distinct (map fst prices) \<and>
             (\<forall>s \<in> set symbols. \<forall>d.
                map_of prices s = Some (Some d) \<longleftrightarrow>
                (\<exists>cg_id entry. map_of COINGECKO_IDS s = Some cg_id \<and>
                   map_of kvs cg_id = Some entry \<and> usd_of entry = Inr d)) \<and>
             (\<forall>s \<in> set symbols.
                map_of prices s = Some None \<longleftrightarrow>
                (map_of COINGECKO_IDS s = None \<or>
                 (\<exists>cg_id. map_of COINGECKO_IDS s = Some cg_id \<and> map_of kvs cg_id = None))))) \<and>
         (\<forall>err. fetch_prices (map_of COINGECKO_IDS) net symbols = Inl err \<longrightarrow>
            (\<exists>s \<in> set symbols. \<exists>cg_id entry.
               map_of COINGECKO_IDS s = Some cg_id \<and> map_of kvs cg_id = Some entry \<and>
               usd_of entry = Inl err))"
proof (intro conjI impI allI)
  assume usable: "\<forall>s \<in> set symbols. \<forall>cg_id entry.
             map_of COINGECKO_IDS s = Some cg_id \<longrightarrow> map_of kvs cg_id = Some entry \<longrightarrow>
             (\<exists>d. usd_of entry = Inr d)"
  have ret: "\<exists>p. lookup_price (map_of COINGECKO_IDS) (JObj kvs) s = Inr p"
    if "s \<in> set symbols" for s
    using usable that
    by (fastforce simp add: lookup_price_obj split: option.splits sum.splits)
  from price_loop_returns [of symbols "map_of COINGECKO_IDS" "JObj kvs" "[]", OF ret]
  obtain prices where
    pl: "price_loop (map_of COINGECKO_IDS) (JObj kvs) symbols [] = Inr prices" by blast
  with net have fp: "fetch_prices (map_of COINGECKO_IDS) net symbols = Inr prices"
    by (simp add: fetch_prices_def)
  have keys: "fst ` set prices = set symbols" using price_loop_keys [OF pl] by simp
  have dist: "distinct (map fst prices)" using price_loop_distinct [OF pl] by simp
  have stored: "map_of prices s =
        Some (case map_of COINGECKO_IDS s of
                None \<Rightarrow> None
              | Some cg_id \<Rightarrow>
                  (case map_of kvs cg_id of
                     None \<Rightarrow> None
                   | Some entry \<Rightarrow> (case usd_of entry of Inl err \<Rightarrow> None | Inr d \<Rightarrow> Some d)))"
    if s: "s \<in> set symbols" for s
  proof -
    from price_loop_stored [OF pl s] obtain p where
      p: "lookup_price (map_of COINGECKO_IDS) (JObj kvs) s = Inr p" "map_of prices s = Some p"
      by blast
    from p(1) have "p = (case map_of COINGECKO_IDS s of
                None \<Rightarrow> None
              | Some cg_id \<Rightarrow>
                  (case map_of kvs cg_id of
                     None \<Rightarrow> None
                   | Some entry \<Rightarrow> (case usd_of entry of Inl err \<Rightarrow> None | Inr d \<Rightarrow> Some d)))"
      by (auto simp add: lookup_price_obj ids_nonempty split: option.splits sum.splits if_splits)
    with p(2) show ?thesis by simp
  qed
  have present: "map_of prices s = Some (Some d) \<longleftrightarrow>
                (\<exists>cg_id entry. map_of COINGECKO_IDS s = Some cg_id \<and>
                   map_of kvs cg_id = Some entry \<and> usd_of entry = Inr d)"
    if s: "s \<in> set symbols" for s d
    unfolding stored [OF s] by (auto split: option.splits sum.splits)
  have absent: "map_of prices s = Some None \<longleftrightarrow>
                (map_of COINGECKO_IDS s = None \<or>
                 (\<exists>cg_id. map_of COINGECKO_IDS s = Some cg_id \<and> map_of kvs cg_id = None))"
    if s: "s \<in> set symbols" for s
    unfolding stored [OF s] using usable s by (fastforce split: option.splits sum.splits)
  from fp keys dist present absent
  show "\<exists>prices. fetch_prices (map_of COINGECKO_IDS) net symbols = Inr prices \<and>
             fst ` set prices = set symbols \<and> distinct (map fst prices) \<and>
             (\<forall>s \<in> set symbols. \<forall>d.
                map_of prices s = Some (Some d) \<longleftrightarrow>
                (\<exists>cg_id entry. map_of COINGECKO_IDS s = Some cg_id \<and>
                   map_of kvs cg_id = Some entry \<and> usd_of entry = Inr d)) \<and>
             (\<forall>s \<in> set symbols.
                map_of prices s = Some None \<longleftrightarrow>
                (map_of COINGECKO_IDS s = None \<or>
                 (\<exists>cg_id. map_of COINGECKO_IDS s = Some cg_id \<and> map_of kvs cg_id = None)))"
    by blast
next
  fix err
  assume "fetch_prices (map_of COINGECKO_IDS) net symbols = Inl err"
  with net have "price_loop (map_of COINGECKO_IDS) (JObj kvs) symbols [] = Inl err"
    by (simp add: fetch_prices_def)
  from price_loop_raises [OF this] obtain s where
    s: "s \<in> set symbols" "lookup_price (map_of COINGECKO_IDS) (JObj kvs) s = Inl err" by blast
  from s(2) have "\<exists>cg_id entry.
               map_of COINGECKO_IDS s = Some cg_id \<and> map_of kvs cg_id = Some entry \<and>
               usd_of entry = Inl err"
    by (auto simp add: lookup_price_obj split: option.splits sum.splits if_splits)
  with s(1) show "\<exists>s \<in> set symbols. \<exists>cg_id entry.
               map_of COINGECKO_IDS s = Some cg_id \<and> map_of kvs cg_id = Some entry \<and>
               usd_of entry = Inl err" by blast
qed

theorem fetch_prices_presence_witness:
  "\<exists>prices.
     fetch_prices (map_of COINGECKO_IDS) (respond 200 litecoin_response)
       [''LTC'', ''BAT'', ''DOGE''] = Inr prices \<and>
     fst ` set prices = set [''LTC'', ''BAT'', ''DOGE''] \<and> distinct (map fst prices) \<and>
     map_of prices ''LTC'' = Some (Some (Finite False 25 (- 1))) \<and>
     map_of prices ''BAT'' = Some None \<and>
     map_of prices ''DOGE'' = Some None"
proof -
  define kvs where "kvs = [(''litecoin'', JObj [(''usd'', JStr ''2.5'')])]"
  define symbols where "symbols = [''LTC'', ''BAT'', ''DOGE'']"
  have net: "respond 200 litecoin_response (request_url (map_of COINGECKO_IDS) symbols) =
             Response 200 (Some (JObj kvs))"
    by (simp add: respond_def litecoin_response_def kvs_def)
  have usd: "usd_of (JObj [(''usd'', JStr ''2.5'')]) = Inr (Finite False 25 (- 1))"
    by (simp add: usd_of_def Decimal_of_str_2_5)
  have usable: "\<forall>s \<in> set symbols. \<forall>cg_id entry.
      map_of COINGECKO_IDS s = Some cg_id \<longrightarrow> map_of kvs cg_id = Some entry \<longrightarrow>
      (\<exists>d. usd_of entry = Inr d)"
    using usd by (auto simp add: kvs_def split: if_splits)
  from fetch_prices_presence
         [where net = "respond 200 litecoin_response" and symbols = symbols and kvs = kvs
            and status = 200, OF net, THEN conjunct1, THEN mp, OF usable]
  obtain prices where
    fp: "fetch_prices (map_of COINGECKO_IDS) (respond 200 litecoin_response) symbols = Inr prices"
    and keys: "fst ` set prices = set symbols" and dist: "distinct (map fst prices)"
    and present: "\<forall>s \<in> set symbols. \<forall>d.
        map_of prices s = Some (Some d) \<longleftrightarrow>
        (\<exists>cg_id entry. map_of COINGECKO_IDS s = Some cg_id \<and>
           map_of kvs cg_id = Some entry \<and> usd_of entry = Inr d)"
    and absent: "\<forall>s \<in> set symbols.
        map_of prices s = Some None \<longleftrightarrow>
        (map_of COINGECKO_IDS s = None \<or>
         (\<exists>cg_id. map_of COINGECKO_IDS s = Some cg_id \<and> map_of kvs cg_id = None))"
    by (elim exE conjE) (rule that)
  have mem: "''LTC'' \<in> set symbols" "''BAT'' \<in> set symbols" "''DOGE'' \<in> set symbols"
    by (simp_all add: symbols_def)
  have ids: "map_of COINGECKO_IDS ''LTC'' = Some ''litecoin''"
    "map_of COINGECKO_IDS ''BAT'' = Some ''basic-attention-token''"
    "map_of COINGECKO_IDS ''DOGE'' = None"
    by (simp_all add: COINGECKO_IDS_def)
  have ltc: "map_of prices ''LTC'' = Some (Some (Finite False 25 (- 1)))"
    using present [rule_format, OF mem(1), of "Finite False 25 (- 1)"] usd
    by (simp add: ids kvs_def)
  have bat: "map_of prices ''BAT'' = Some None"
    using absent [rule_format, OF mem(2)] by (simp add: ids kvs_def)
  have doge: "map_of prices ''DOGE'' = Some None"
    using absent [rule_format, OF mem(3)] by (simp add: ids)
  show ?thesis
  proof (intro exI conjI)
    show "fetch_prices (map_of COINGECKO_IDS) (respond 200 litecoin_response)
            [''LTC'', ''BAT'', ''DOGE''] = Inr prices"
      using fp unfolding symbols_def .
    show "fst ` set prices = set [''LTC'', ''BAT'', ''DOGE'']"
      using keys unfolding symbols_def .
    show "distinct (map fst prices)" by (rule dist)
    show "map_of prices ''LTC'' = Some (Some (Finite False 25 (- 1)))" by (rule ltc)
    show "map_of prices ''BAT'' = Some None" by (rule bat)
    show "map_of prices ''DOGE'' = Some None" by (rule doge)
  qed
qed

text \<open>
  C3, as stated, fails: \<^verbatim>\<open>requests.get\<close> does not raise on a non-success status and the
  script never calls \<^verbatim>\<open>raise_for_status\<close>. A response with the status 429 and the JSON
  body of a rate-limit error is processed like any other: the run ends normally and
  prints a line with the absence marker for every token.
\<close>

theorem network_failure_aborts_counterexample:
  "main (respond 429 rate_limit_response) =
     (map (\<lambda>t. format_line (fst t) (snd t) (PyStr ''None'')) TOKENS, None) \<and>
   length (fst (main (respond 429 rate_limit_response))) = 19"
proof -
  have "main (respond 429 rate_limit_response) =
        (map (\<lambda>t. format_line (fst t) (snd t) (PyStr ''None'')) TOKENS, None)"
    unfolding main_def
    by (rule script_map [where data = rate_limit_response and status = 429])
       (auto simp add: respond_def rate_limit_lookup compute_scaled_None)
  then show ?thesis by (simp add: TOKENS_length)
qed

text \<open>
  C3, amended. When the request itself fails (\<^verbatim>\<open>requests.get\<close> raises) or the body of the
  response is not JSON (\<^verbatim>\<open>.json()\<close> raises), whatever the status code, the run ends with
  that exception and prints no line; and a run that ends with one of these two exceptions
  has printed nothing, since the output loop cannot raise them. The status code alone
  never ends a run.
\<close>

theorem network_failure_aborts:
  "(net (request_url (map_of COINGECKO_IDS) (map fst TOKENS)) = TransportFailure \<longrightarrow>
      main net = ([], Some RequestException)) \<and>
   (net (request_url (map_of COINGECKO_IDS) (map fst TOKENS)) = Response status None \<longrightarrow>
      main net = ([], Some JSONDecodeError)) \<and>
   (main net = (ls, Some RequestException) \<or> main net = (ls, Some JSONDecodeError) \<longrightarrow>
      ls = [])"
proof (intro conjI impI)
  assume "net (request_url (map_of COINGECKO_IDS) (map fst TOKENS)) = TransportFailure"
  then show "main net = ([], Some RequestException)"
    by (simp add: main_def script_def fetch_prices_def)
next
  assume "net (request_url (map_of COINGECKO_IDS) (map fst TOKENS)) = Response status None"
  then show "main net = ([], Some JSONDecodeError)"
    by (simp add: main_def script_def fetch_prices_def)
next
  assume "main net = (ls, Some RequestException) \<or> main net = (ls, Some JSONDecodeError)"
  then show "ls = []"
    unfolding main_def by (auto dest: script_network_error)
qed

theorem network_failure_aborts_witness:
  "main (\<lambda>url. TransportFailure) = ([], Some RequestException) \<and>
   main (\<lambda>url. Response 500 None) = ([], Some JSONDecodeError)"
  using network_failure_aborts [of "\<lambda>url. TransportFailure"]
    network_failure_aborts [of "\<lambda>url. Response 500 None" 500]
  by simp

text \<open>
  C4, as stated, fails for two kinds of present prices. A negative price is truncated
  toward zero, not floored: the USD field \<^verbatim>\<open>"-0.0000000000000000015"\<close> gives \<open>-1\<close> where the
  floor of \<open>price \<times> 10^18 = -3/2\<close> is \<open>-2\<close>. And the product is rounded to the 50
  significant digits of the context before \<^verbatim>\<open>int\<close> is applied: the price \<open>10^50 + 1\<close>
  gives \<open>10^68\<close>, not \<open>10^68 + 10^18\<close>. Nor is every scaled value rendered: for the
  price \<open>10^4282\<close> the conversion gives \<open>10^4300\<close>, of 4301 digits, and \<^verbatim>\<open>str\<close> in the f-string
  of line 82 raises \<^verbatim>\<open>ValueError\<close>.
\<close>

theorem scaled_is_floor_counterexample:
  "Decimal_of_json (JStr ''-0.0000000000000000015'') = Inr (Finite True 15 (- 19)) \<and>
   compute_scaled (Some (Finite True 15 (- 19))) = Inr (PyInt (- 1)) \<and>
   \<lfloor>decimal_value True 15 (- 19) * 10 ^ 18\<rfloor> = - 2 \<and>
   compute_scaled (Some (Finite False (10 ^ 50 + 1) 0)) = Inr (PyInt (10 ^ 68)) \<and>
   \<lfloor>decimal_value False (10 ^ 50 + 1) 0 * 10 ^ 18\<rfloor> = 10 ^ 68 + 10 ^ 18 \<and>
   compute_scaled (Some (Finite False 1 4282)) = Inr (PyInt (10 ^ 4300)) \<and>
   py_str (PyInt (10 ^ 4300)) = Inl ValueError"
proof (intro conjI)
  show "Decimal_of_json (JStr ''-0.0000000000000000015'') = Inr (Finite True 15 (- 19))"
    by (simp add: Decimal_of_str_small_negative)
  show "compute_scaled (Some (Finite True 15 (- 19))) = Inr (PyInt (- 1))"
    by (rule small_negative_scaled)
  show "\<lfloor>decimal_value True 15 (- 19) * 10 ^ 18\<rfloor> = - 2"
    unfolding small_negative_value by (rule floor_unique) simp_all
  show "compute_scaled (Some (Finite False (10 ^ 50 + 1) 0)) = Inr (PyInt (10 ^ 68))"
    by (rule big_price_scaled)
  show "\<lfloor>decimal_value False (10 ^ 50 + 1) 0 * 10 ^ 18\<rfloor> = 10 ^ 68 + 10 ^ 18"
    unfolding floor_scaled by (simp add: trunc_scaled_def)
  show "compute_scaled (Some (Finite False 1 4282)) = Inr (PyInt (10 ^ 4300))"
    by (rule ten_power_scaled)
  show "py_str (PyInt (10 ^ 4300)) = Inl ValueError" by (rule ten_power_text)
qed

text \<open>
  C4, amended. For every symbol whose price is present, finite and not negative, with a
  coefficient of at most 50 digits (the precision the script sets) and with
  \<open>price \<times> 10^18\<close> below \<open>10^(Emax+1)\<close>, the conversion yields exactly \<open>\<lfloor>price \<times> 10^18\<rfloor>\<close>.
  When that integer has at most 4300 digits, as it has when the number of digits of the
  coefficient plus the exponent plus 18 is at most 4300, \<^verbatim>\<open>str\<close> returns its text, which
  consists of decimal digits only and reads back as that number, and the iteration of
  the output loop for that symbol prints the line with that text and goes on with the
  rest of the table. When it has more, \<^verbatim>\<open>str\<close> raises \<^verbatim>\<open>ValueError\<close> and the run ends there
  without a line for that symbol.
\<close>

theorem scaled_is_floor:
  assumes "ndigits c \<le> prec" and "int (ndigits c) + e + 17 \<le> Emax"
  shows "compute_scaled (Some (Finite False c e)) =
           Inr (PyInt \<lfloor>decimal_value False c e * 10 ^ 18\<rfloor>) \<and>
         (ndigits (nat \<lfloor>decimal_value False c e * 10 ^ 18\<rfloor>) \<le> max_str_digits \<longrightarrow>
            py_str (PyInt \<lfloor>decimal_value False c e * 10 ^ 18\<rfloor>) =
              Inr (format_value (PyInt \<lfloor>decimal_value False c e * 10 ^ 18\<rfloor>)) \<and>
            list_all is_digit (format_value (PyInt \<lfloor>decimal_value False c e * 10 ^ 18\<rfloor>)) \<and>
            int (nat_of_digits (format_value (PyInt \<lfloor>decimal_value False c e * 10 ^ 18\<rfloor>))) =
              \<lfloor>decimal_value False c e * 10 ^ 18\<rfloor> \<and>
            (\<forall>prices symbol address rest.
               map_of prices symbol = Some (Some (Finite False c e)) \<longrightarrow>
               output_loop prices ((symbol, address) # rest) =
                 (format_line symbol address (PyInt \<lfloor>decimal_value False c e * 10 ^ 18\<rfloor>) #
                    fst (output_loop prices rest),
                  snd (output_loop prices rest)))) \<and>
         (max_str_digits < ndigits (nat \<lfloor>decimal_value False c e * 10 ^ 18\<rfloor>) \<longrightarrow>
            py_str (PyInt \<lfloor>decimal_value False c e * 10 ^ 18\<rfloor>) = Inl ValueError \<and>
            (\<forall>prices symbol address rest.
               map_of prices symbol = Some (Some (Finite False c e)) \<longrightarrow>
               output_loop prices ((symbol, address) # rest) = ([], Some ValueError))) \<and>
         (int (ndigits c) + e + 18 \<le> int max_str_digits \<longrightarrow>
            ndigits (nat \<lfloor>decimal_value False c e * 10 ^ 18\<rfloor>) \<le> max_str_digits)"
proof -
  define v where "v = trunc_scaled c e"
  have fl: "\<lfloor>decimal_value False c e * 10 ^ 18\<rfloor> = v" unfolding v_def by (rule floor_scaled)
  have nn: "0 \<le> v" unfolding v_def by (rule trunc_scaled_nonneg)
  have cs: "compute_scaled (Some (Finite False c e)) = Inr (PyInt v)"
    unfolding v_def using compute_scaled_exact [OF assms, of False] by simp
  have fmt: "format_value (PyInt v) = str_nat (nat v)"
    using nn by (simp add: str_int_nonneg)
  have dg: "list_all is_digit (str_nat (nat v))"
    and rd: "nat_of_digits (str_nat (nat v)) = nat v"
    using str_nat_digits [of "nat v"] by simp_all
  have ok: "py_str (PyInt v) = Inr (format_value (PyInt v)) \<and>
            list_all is_digit (format_value (PyInt v)) \<and>
            int (nat_of_digits (format_value (PyInt v))) = v \<and>
            (\<forall>prices symbol address rest.
               map_of prices symbol = Some (Some (Finite False c e)) \<longrightarrow>
               output_loop prices ((symbol, address) # rest) =
                 (format_line symbol address (PyInt v) # fst (output_loop prices rest),
                  snd (output_loop prices rest)))"
    if d: "ndigits (nat v) \<le> max_str_digits"
  proof (intro conjI allI impI)
    show ps: "py_str (PyInt v) = Inr (format_value (PyInt v))"
      using d nn by (simp add: py_str_int_small)
    show "list_all is_digit (format_value (PyInt v))" unfolding fmt by (rule dg)
    show "int (nat_of_digits (format_value (PyInt v))) = v" unfolding fmt rd using nn by simp
    fix prices :: prices and symbol address :: string and rest :: "(string \<times> string) list"
    assume "map_of prices symbol = Some (Some (Finite False c e))"
    then show "output_loop prices ((symbol, address) # rest) =
               (format_line symbol address (PyInt v) # fst (output_loop prices rest),
                snd (output_loop prices rest))"
      using cs ps by (rule output_loop_step)
  qed
  have bad: "py_str (PyInt v) = Inl ValueError \<and>
            (\<forall>prices symbol address rest.
               map_of prices symbol = Some (Some (Finite False c e)) \<longrightarrow>
               output_loop prices ((symbol, address) # rest) = ([], Some ValueError))"
    if d: "max_str_digits < ndigits (nat v)"
  proof (intro conjI allI impI)
    show ps: "py_str (PyInt v) = Inl ValueError"
      using d nn by (simp add: py_str_int_def)
    fix prices :: prices and symbol address :: string and rest :: "(string \<times> string) list"
    assume "map_of prices symbol = Some (Some (Finite False c e))"
    then show "output_loop prices ((symbol, address) # rest) = ([], Some ValueError)"
      using cs ps by (simp add: print_line_def)
  qed
  have small: "ndigits (nat v) \<le> max_str_digits"
    if "int (ndigits c) + e + 18 \<le> int max_str_digits"
    unfolding v_def using assms(1) that by (rule trunc_scaled_digits)
  show ?thesis
    unfolding fl
  proof (intro conjI)
    show "compute_scaled (Some (Finite False c e)) = Inr (PyInt v)" by (rule cs)
    show "ndigits (nat v) \<le> max_str_digits \<longrightarrow>
            py_str (PyInt v) = Inr (format_value (PyInt v)) \<and>
            list_all is_digit (format_value (PyInt v)) \<and>
            int (nat_of_digits (format_value (PyInt v))) = v \<and>
            (\<forall>prices symbol address rest.
               map_of prices symbol = Some (Some (Finite False c e)) \<longrightarrow>
               output_loop prices ((symbol, address) # rest) =
                 (format_line symbol address (PyInt v) # fst (output_loop prices rest),
                  snd (output_loop prices rest)))"
      by (rule impI) (rule ok)
    show "max_str_digits < ndigits (nat v) \<longrightarrow>
            py_str (PyInt v) = Inl ValueError \<and>
            (\<forall>prices symbol address rest.
               map_of prices symbol = Some (Some (Finite False c e)) \<longrightarrow>
               output_loop prices ((symbol, address) # rest) = ([], Some ValueError))"
      by (rule impI) (rule bad)
    show "int (ndigits c) + e + 18 \<le> int max_str_digits \<longrightarrow> ndigits (nat v) \<le> max_str_digits"
      by (rule impI) (rule small)
  qed
qed

theorem scaled_is_floor_witness:
  "ndigits 25 \<le> prec \<and> int (ndigits 25) + (- 1) + 17 \<le> Emax \<and>
   compute_scaled (Some (Finite False 25 (- 1))) = Inr (PyInt 2500000000000000000) \<and>
   \<lfloor>decimal_value False 25 (- 1) * 10 ^ 18\<rfloor> = 2500000000000000000 \<and>
   ndigits (nat 2500000000000000000) \<le> max_str_digits \<and>
   py_str (PyInt 2500000000000000000) = Inr ''2500000000000000000'' \<and>
   ndigits 1 \<le> prec \<and> int (ndigits 1) + 4282 + 17 \<le> Emax \<and>
   compute_scaled (Some (Finite False 1 4282)) = Inr (PyInt (10 ^ 4300)) \<and>
   max_str_digits < ndigits (nat (10 ^ 4300)) \<and>
   py_str (PyInt (10 ^ 4300)) = Inl ValueError"
proof -
  have n: "ndigits 25 = 2" by (simp add: ndigits_def str_nat.simps)
  have a: "ndigits 25 \<le> prec" and b: "int (ndigits 25) + (- 1) + 17 \<le> Emax"
    by (simp_all add: n prec_def Emax_def)
  have v: "\<lfloor>decimal_value False 25 (- 1) * 10 ^ 18\<rfloor> = 2500000000000000000"
    unfolding floor_scaled by (simp add: trunc_scaled_def)
  have t: "format_value (PyInt 2500000000000000000) = ''2500000000000000000''"
    by (simp add: str_int_def str_nat.simps digit_char_def)
  have d: "ndigits (nat 2500000000000000000) \<le> max_str_digits"
    by (simp add: ndigits_def str_nat.simps max_str_digits_def)
  note w = scaled_is_floor [of 25 "- 1", OF a b, unfolded v]
  note w1 = w [THEN conjunct1]
  note w2 = w [THEN conjunct2, THEN conjunct1, THEN mp, OF d, THEN conjunct1, unfolded t]
  have a': "ndigits 1 \<le> prec" and b': "int (ndigits 1) + 4282 + 17 \<le> Emax"
    by (simp_all add: ndigits_one prec_def Emax_def)
  have v': "\<lfloor>decimal_value False 1 4282 * 10 ^ 18\<rfloor> = 10 ^ 4300"
    unfolding floor_scaled trunc_scaled_def by (simp del: power_numeral)
  have d': "max_str_digits < ndigits (nat (10 ^ 4300))"
    unfolding ten_power_digits max_str_digits_def by simp
  note x = scaled_is_floor [of 1 4282, OF a' b', unfolded v']
  note x1 = x [THEN conjunct1]
  note x2 = x [THEN conjunct2, THEN conjunct2, THEN conjunct1, THEN mp, OF d', THEN conjunct1]
  from a b w1 v d w2 a' b' x1 d' x2 show ?thesis by (intro conjI)
qed

text \<open>
  C5, as stated, fails on "positive": a valid USD field can be zero (or below
  \<open>10^-18\<close>), and then the scaled value is \<open>0\<close>. When the response quotes \<^verbatim>\<open>{"usd": 0}\<close> for
  every identifier, every line shows \<open>0\<close>.
\<close>

theorem all_priced_counterexample:
  "Decimal_of_json (JInt 0) = Inr (Finite False 0 0) \<and>
   main (respond 200 (uniform_response (JInt 0))) =
     (map (\<lambda>t. format_line (fst t) (snd t) (PyInt 0)) TOKENS, None)"
  using Decimal_of_json_zero
    uniform_run [OF Decimal_of_json_zero compute_scaled_zero py_str_zero, of 200]
  by (intro conjI)

text \<open>
  C5, amended. For every response mapping in which each identifier of the provider
  table has a record whose USD field is a finite, non-negative decimal with a coefficient
  of at most 50 digits and with \<open>price \<times> 10^18\<close> below \<open>10^4300\<close> (the digits of the
  coefficient plus the exponent plus 18 are at most 4300, the longest integer \<^verbatim>\<open>str\<close>
  accepts), the run ends without an error and every output line shows the integer
  \<open>\<lfloor>price \<times> 10^18\<rfloor>\<close> of its symbol's price (\<open>coeff s \<times> 10^(expo s)\<close> for the symbol \<open>s\<close>).
  That integer is never negative, and it is positive exactly when the price is at least
  \<open>10^-18\<close>.
\<close>

theorem all_priced:
  assumes net: "net (request_url (map_of COINGECKO_IDS) (map fst TOKENS)) =
                Response status (Some (JObj kvs))"
    and valid: "\<And>s cg_id. map_of COINGECKO_IDS s = Some cg_id \<Longrightarrow>
        \<exists>entry. map_of kvs cg_id = Some entry \<and>
                usd_of entry = Inr (Finite False (coeff s) (expo s)) \<and>
                ndigits (coeff s) \<le> prec \<and>
                int (ndigits (coeff s)) + expo s + 18 \<le> int max_str_digits"
  shows "main net =
           (map (\<lambda>t. format_line (fst t) (snd t)
                     (PyInt \<lfloor>decimal_value False (coeff (fst t)) (expo (fst t)) * 10 ^ 18\<rfloor>))
                TOKENS, None) \<and>
         (\<forall>t \<in> set TOKENS.
            0 \<le> \<lfloor>decimal_value False (coeff (fst t)) (expo (fst t)) * 10 ^ 18\<rfloor> \<and>
            (0 < \<lfloor>decimal_value False (coeff (fst t)) (expo (fst t)) * 10 ^ 18\<rfloor> \<longleftrightarrow>
             1 \<le> decimal_value False (coeff (fst t)) (expo (fst t)) * 10 ^ 18))"
proof
  show "main net =
           (map (\<lambda>t. format_line (fst t) (snd t)
                     (PyInt \<lfloor>decimal_value False (coeff (fst t)) (expo (fst t)) * 10 ^ 18\<rfloor>))
                TOKENS, None)"
    unfolding main_def
  proof (rule script_map
      [where net = net and ids = "map_of COINGECKO_IDS" and tokens = TOKENS
         and f = "\<lambda>s. PyInt \<lfloor>decimal_value False (coeff s) (expo s) * 10 ^ 18\<rfloor>", OF net])
    fix s assume "s \<in> fst ` set TOKENS"
    from tokens_mapped [OF this] obtain cg_id where
      cg: "map_of COINGECKO_IDS s = Some cg_id" by blast
    from valid [OF cg] obtain entry where
      e: "map_of kvs cg_id = Some entry" "usd_of entry = Inr (Finite False (coeff s) (expo s))"
      and b: "ndigits (coeff s) \<le> prec"
        "int (ndigits (coeff s)) + expo s + 18 \<le> int max_str_digits"
      by blast
    have l: "lookup_price (map_of COINGECKO_IDS) (JObj kvs) s =
             Inr (Some (Finite False (coeff s) (expo s)))"
      using cg e ids_nonempty [OF cg] by (simp add: lookup_price_obj)
    have "compute_scaled (Some (Finite False (coeff s) (expo s))) =
          Inr (PyInt (trunc_scaled (coeff s) (expo s)))"
      using compute_scaled_exact [OF b(1) range_from_digits [OF b(2)], of False] by simp
    with l py_str_trunc_scaled [OF b]
    show "\<exists>p. lookup_price (map_of COINGECKO_IDS) (JObj kvs) s = Inr p \<and>
          compute_scaled p =
          Inr (PyInt \<lfloor>decimal_value False (coeff s) (expo s) * 10 ^ 18\<rfloor>) \<and>
          py_str (PyInt \<lfloor>decimal_value False (coeff s) (expo s) * 10 ^ 18\<rfloor>) =
          Inr (format_value (PyInt \<lfloor>decimal_value False (coeff s) (expo s) * 10 ^ 18\<rfloor>))"
      unfolding floor_scaled by simp
  qed
  show "\<forall>t \<in> set TOKENS.
            0 \<le> \<lfloor>decimal_value False (coeff (fst t)) (expo (fst t)) * 10 ^ 18\<rfloor> \<and>
            (0 < \<lfloor>decimal_value False (coeff (fst t)) (expo (fst t)) * 10 ^ 18\<rfloor> \<longleftrightarrow>
             1 \<le> decimal_value False (coeff (fst t)) (expo (fst t)) * 10 ^ 18)"
    unfolding zero_less_floor by (simp only: floor_scaled trunc_scaled_nonneg) simp
qed

theorem all_priced_witness:
  "main (respond 200 (uniform_response (JStr ''2.5''))) =
     (map (\<lambda>t. format_line (fst t) (snd t) (PyInt 2500000000000000000)) TOKENS, None)"
proof -
  define kvs where
    "kvs = map (\<lambda>(s, cg_id). (cg_id, JObj [(''usd'', JStr ''2.5'')])) COINGECKO_IDS"
  have net: "respond 200 (uniform_response (JStr ''2.5''))
               (request_url (map_of COINGECKO_IDS) (map fst TOKENS)) =
             Response 200 (Some (JObj kvs))"
    by (simp add: respond_def uniform_response_def kvs_def)
  have n: "ndigits 25 = 2" by (simp add: ndigits_def str_nat.simps)
  have v: "\<lfloor>decimal_value False 25 (- 1) * 10 ^ 18\<rfloor> = 2500000000000000000"
    unfolding floor_scaled by (simp add: trunc_scaled_def)
  have valid: "\<exists>entry. map_of kvs cg_id = Some entry \<and>
                usd_of entry = Inr (Finite False 25 (- 1)) \<and>
                ndigits 25 \<le> prec \<and> int (ndigits 25) + (- 1) + 18 \<le> int max_str_digits"
    if "map_of COINGECKO_IDS s = Some cg_id" for s cg_id
    using map_of_swapped [OF that, of "JObj [(''usd'', JStr ''2.5'')]"]
    by (simp add: kvs_def usd_of_def Decimal_of_str_2_5 n prec_def max_str_digits_def)
  from all_priced
    [where net = "respond 200 (uniform_response (JStr ''2.5''))" and status = 200
       and kvs = kvs and coeff = "\<lambda>s. 25" and expo = "\<lambda>s. - 1", OF net valid,
     THEN conjunct1]
  show ?thesis unfolding v .
qed

text \<open>
  C6. With the provider map \<^verbatim>\<open>{"LTC": "litecoin"}\<close> and the fabricated response
  \<^verbatim>\<open>{"litecoin": {"usd": "2.5"}}\<close>, \<open>fetch_prices\<close> stores the decimal \<open>2.5\<close> for LTC, its
  scaled value is \<open>2500000000000000000\<close>, and with the static tables the run prints that
  value on the line of LTC (and the absence marker on every other line).
\<close>

theorem litecoin_round_trip:
  "fetch_prices (map_of [(''LTC'', ''litecoin'')]) (respond 200 litecoin_response) [''LTC''] =
     Inr [(''LTC'', Some (Finite False 25 (- 1)))] \<and>
   compute_scaled (Some (Finite False 25 (- 1))) = Inr (PyInt 2500000000000000000) \<and>
   main (respond 200 litecoin_response) =
     (map (\<lambda>t. format_line (fst t) (snd t)
               (if fst t = ''LTC'' then PyInt 2500000000000000000 else PyStr ''None''))
          TOKENS, None)"
proof (intro conjI)
  show "fetch_prices (map_of [(''LTC'', ''litecoin'')]) (respond 200 litecoin_response) [''LTC''] =
        Inr [(''LTC'', Some (Finite False 25 (- 1)))]"
    by (simp add: fetch_prices_def respond_def lookup_price_def litecoin_response_def
          Decimal_of_str_2_5)
  show "compute_scaled (Some (Finite False 25 (- 1))) = Inr (PyInt 2500000000000000000)"
    by (rule compute_scaled_2_5)
  show "main (respond 200 litecoin_response) =
     (map (\<lambda>t. format_line (fst t) (snd t)
               (if fst t = ''LTC'' then PyInt 2500000000000000000 else PyStr ''None''))
          TOKENS, None)"
    by (rule litecoin_run)
qed

text \<open>
  C7. Given the empty response body \<^verbatim>\<open>{}\<close> (whatever the status code), the run ends
  without an error and prints one line for every entry of the static token table, in
  table order, each showing the absence marker \<^verbatim>\<open>None\<close>: no line is omitted.
\<close>

theorem empty_response_all_absent:
  "main (\<lambda>url. Response status (Some (JObj []))) =
   (map (\<lambda>t. format_line (fst t) (snd t) (PyStr ''None'')) TOKENS, None)"
  unfolding main_def
  by (rule script_map [where data = "JObj []" and status = status])
     (simp_all add: lookup_price_empty compute_scaled_None)

text \<open>
  C8, as stated, fails at its last part: the line of a symbol without a provider
  identifier is printed only if the run gets that far. With the identifier table
  \<^verbatim>\<open>{"LTC": "litecoin"}\<close>, the tokens DOGE and LTC and the response \<^verbatim>\<open>{"litecoin": {}}\<close>,
  DOGE has no identifier, yet \<open>fetch_prices\<close> raises \<^verbatim>\<open>KeyError\<close> at the record of LTC:
  no mapping is returned and no line is printed, for DOGE or for any other token.
\<close>

theorem unmapped_symbol_absent_counterexample:
  "map_of [(''LTC'', ''litecoin'')] ''DOGE'' = None \<and>
   fetch_prices (map_of [(''LTC'', ''litecoin'')]) (respond 200 empty_record_response)
     [''DOGE'', ''LTC''] = Inl KeyError \<and>
   script (map_of [(''LTC'', ''litecoin'')])
     [(''DOGE'', ''0xd09e''), (''LTC'', ''0x0c4ceba4def071a21650e54e598a6602157521cc'')]
     (respond 200 empty_record_response) = ([], Some KeyError)"
  by (simp add: script_def fetch_prices_def respond_def lookup_price_def
        empty_record_response_def)

text \<open>
  C8, amended. Whatever the identifier table, the input symbols, the token table and
  the network's answer, a symbol \<open>s\<close> without a provider identifier adds nothing to the
  identifier list or to the URL of the request, and its own turn in the loop of
  \<open>fetch_prices\<close> never raises: it stores the absent price under \<open>s\<close> and goes on to the
  next symbol. So whenever \<open>fetch_prices\<close> returns, \<open>s\<close> is a key of the mapping with an
  absent price; its turn in the output loop prints the line with the absence marker and
  goes on; and whenever a run prints a line for a token entry with that symbol, the line
  shows the absence marker. The run does return the mapping and print every line, those
  of \<open>s\<close> with the absence marker, when the network answers with a JSON body for which
  the lookup, the scaling and the formatting of every other token succeed.
\<close>

theorem unmapped_symbol_absent:
  assumes "ids s = None"
  shows "request_ids ids (xs @ s # ys) = request_ids ids (xs @ ys) \<and>
         request_url ids (xs @ s # ys) = request_url ids (xs @ ys) \<and>
         lookup_price ids data s = Inr None \<and>
         price_loop ids data (s # rest) acc =
           price_loop ids data rest (AList.update s None acc) \<and>
         (\<forall>prices. fetch_prices ids net symbols = Inr prices \<longrightarrow> s \<in> set symbols \<longrightarrow>
            s \<in> fst ` set prices \<and> map_of prices s = Some None) \<and>
         (\<forall>prices address tokens'. map_of prices s = Some None \<longrightarrow>
            output_loop prices ((s, address) # tokens') =
            (format_line s address (PyStr ''None'') # fst (output_loop prices tokens'),
             snd (output_loop prices tokens'))) \<and>
         (\<forall>ls r i. script ids tokens net = (ls, r) \<longrightarrow> i < length ls \<longrightarrow>
            fst (tokens ! i) = s \<longrightarrow>
            ls ! i = format_line s (snd (tokens ! i)) (PyStr ''None'')) \<and>
         (\<forall>status.
            net (request_url ids (map fst tokens)) = Response status (Some data) \<longrightarrow>
            (\<forall>s' \<in> fst ` set tokens. s' \<noteq> s \<longrightarrow>
               (\<exists>p scaled. lookup_price ids data s' = Inr p \<and>
                  compute_scaled p = Inr scaled \<and>
                  py_str scaled = Inr (format_value scaled))) \<longrightarrow>
            (\<exists>prices ls.
               fetch_prices ids net (map fst tokens) = Inr prices \<and>
               (s \<in> fst ` set tokens \<longrightarrow> map_of prices s = Some None) \<and>
               script ids tokens net = (ls, None) \<and> length ls = length tokens \<and>
               (\<forall>i < length tokens. fst (tokens ! i) = s \<longrightarrow>
                  ls ! i = format_line s (snd (tokens ! i)) (PyStr ''None''))))"
proof (intro conjI allI impI)
  show "request_ids ids (xs @ s # ys) = request_ids ids (xs @ ys)"
    using assms by (rule request_ids_unmapped)
  then show "request_url ids (xs @ s # ys) = request_url ids (xs @ ys)"
    by (simp only: request_url_def)
  show l: "lookup_price ids data s = Inr None"
    using assms by (simp add: lookup_price_unmapped)
  then show "price_loop ids data (s # rest) acc =
             price_loop ids data rest (AList.update s None acc)"
    by simp
next
  fix prices
  assume f: "fetch_prices ids net symbols = Inr prices" and m: "s \<in> set symbols"
  from fetch_prices_unmapped [OF f m assms] show "map_of prices s = Some None" .
  then show "s \<in> fst ` set prices" by (rule map_of_SomeD [THEN rev_image_eqI]) simp
next
  fix prices :: prices and address :: string and tokens' :: "(string \<times> string) list"
  assume "map_of prices s = Some None"
  then show "output_loop prices ((s, address) # tokens') =
             (format_line s address (PyStr ''None'') # fst (output_loop prices tokens'),
              snd (output_loop prices tokens'))"
    by (rule output_loop_step) (simp_all add: compute_scaled_None)
next
  fix ls r i
  assume "script ids tokens net = (ls, r)" "i < length ls" "fst (tokens ! i) = s"
  then show "ls ! i = format_line s (snd (tokens ! i)) (PyStr ''None'')"
    using assms by (rule script_unmapped)
next
  fix status
  assume net: "net (request_url ids (map fst tokens)) = Response status (Some data)"
    and others: "\<forall>s' \<in> fst ` set tokens. s' \<noteq> s \<longrightarrow>
               (\<exists>p scaled. lookup_price ids data s' = Inr p \<and>
                  compute_scaled p = Inr scaled \<and>
                  py_str scaled = Inr (format_value scaled))"
  have each: "\<exists>p scaled. lookup_price ids data s' = Inr p \<and> compute_scaled p = Inr scaled \<and>
                py_str scaled = Inr (format_value scaled)"
    if "s' \<in> fst ` set tokens" for s'
  proof (cases "s' = s")
    case True
    have "lookup_price ids data s = Inr None"
      using assms by (simp add: lookup_price_unmapped)
    moreover have "py_str (PyStr ''None'') = Inr (format_value (PyStr ''None''))" by simp
    ultimately show ?thesis using True compute_scaled_None by blast
  next
    case False
    with others that show ?thesis by blast
  qed
  from script_complete [where net = net and ids = ids and tokens = tokens
      and status = status and data = data, OF net each]
  obtain scaleds where len: "length scaleds = length tokens"
    and run: "script ids tokens net =
              (map2 (\<lambda>t scaled. format_line (fst t) (snd t) scaled) tokens scaleds, None)"
    by blast
  define ls where "ls = map2 (\<lambda>t scaled. format_line (fst t) (snd t) scaled) tokens scaleds"
  from len have ll: "length ls = length tokens" by (simp add: ls_def)
  from run have run': "script ids tokens net = (ls, None)" by (simp add: ls_def)
  obtain prices where f: "fetch_prices ids net (map fst tokens) = Inr prices"
    using run' by (cases "fetch_prices ids net (map fst tokens)") (simp_all add: script_def)
  have m: "map_of prices s = Some None" if "s \<in> fst ` set tokens"
  proof -
    from that have "s \<in> set (map fst tokens)" by simp
    from fetch_prices_unmapped [OF f this assms] show ?thesis .
  qed
  have n: "ls ! i = format_line s (snd (tokens ! i)) (PyStr ''None'')"
    if "i < length tokens" "fst (tokens ! i) = s" for i
  proof -
    from that(1) ll have "i < length ls" by simp
    from script_unmapped [OF run' this that(2) assms] show ?thesis .
  qed
  from f m run' ll n
  show "\<exists>prices ls.
          fetch_prices ids net (map fst tokens) = Inr prices \<and>
          (s \<in> fst ` set tokens \<longrightarrow> map_of prices s = Some None) \<and>
          script ids tokens net = (ls, None) \<and> length ls = length tokens \<and>
          (\<forall>i < length tokens. fst (tokens ! i) = s \<longrightarrow>
             ls ! i = format_line s (snd (tokens ! i)) (PyStr ''None''))"
    by blast
qed

theorem unmapped_symbol_absent_witness:
  "map_of [(''LTC'', ''litecoin'')] ''DOGE'' = None \<and>
   request_ids (map_of [(''LTC'', ''litecoin'')]) [''LTC'', ''DOGE''] = [''litecoin''] \<and>
   fetch_prices (map_of [(''LTC'', ''litecoin'')]) (respond 200 litecoin_response)
     [''LTC'', ''DOGE''] =
     Inr [(''LTC'', Some (Finite False 25 (- 1))), (''DOGE'', None)] \<and>
   script (map_of [(''LTC'', ''litecoin'')])
     [(''LTC'', ''0x0c4ceba4def071a21650e54e598a6602157521cc''), (''DOGE'', ''0xd09e'')]
     (respond 200 litecoin_response) =
     ([format_line ''LTC'' ''0x0c4ceba4def071a21650e54e598a6602157521cc''
         (PyInt 2500000000000000000),
       format_line ''DOGE'' ''0xd09e'' (PyStr ''None'')], None)"
proof -
  define ids where "ids = map_of [(''LTC'', ''litecoin'')]"
  define tokens where
    "tokens = [(''LTC'', ''0x0c4ceba4def071a21650e54e598a6602157521cc''), (''DOGE'', ''0xd09e'')]"
  define net where "net = respond 200 litecoin_response"
  have un: "ids ''DOGE'' = None" by (simp add: ids_def)
  note u = unmapped_symbol_absent
    [where ids = ids and s = "''DOGE''" and xs = "[''LTC'']" and ys = "[]"
       and data = litecoin_response and net = net and symbols = "[''LTC'', ''DOGE'']"
       and tokens = tokens and rest = "[]"
       and acc = "[(''LTC'', Some (Finite False 25 (- 1)))]", OF un]
  have ltc: "lookup_price ids litecoin_response ''LTC'' = Inr (Some (Finite False 25 (- 1)))"
    by (simp add: ids_def lookup_price_def litecoin_response_def Decimal_of_str_2_5)
  have ri: "request_ids ids [''LTC'', ''DOGE''] = [''litecoin'']"
    using u [THEN conjunct1] by (simp add: request_ids_def ids_def)
  have doge: "price_loop ids litecoin_response [''DOGE'']
                [(''LTC'', Some (Finite False 25 (- 1)))] =
              Inr [(''LTC'', Some (Finite False 25 (- 1))), (''DOGE'', None)]"
    using u [THEN conjunct2, THEN conjunct2, THEN conjunct2, THEN conjunct1] by simp
  have fp: "fetch_prices ids net [''LTC'', ''DOGE''] =
            Inr [(''LTC'', Some (Finite False 25 (- 1))), (''DOGE'', None)]"
    using doge by (simp add: fetch_prices_def net_def respond_def ltc)
  have line: "print_line ''LTC'' ''0x0c4ceba4def071a21650e54e598a6602157521cc''
                (PyInt 2500000000000000000) =
              Inr (format_line ''LTC'' ''0x0c4ceba4def071a21650e54e598a6602157521cc''
                (PyInt 2500000000000000000))"
    by (rule print_line_printable) (simp add: py_str_2_5)
  have run: "script ids tokens net =
     ([format_line ''LTC'' ''0x0c4ceba4def071a21650e54e598a6602157521cc''
         (PyInt 2500000000000000000),
       format_line ''DOGE'' ''0xd09e'' (PyStr ''None'')], None)"
    using fp line
    by (simp add: script_def tokens_def compute_scaled_2_5 compute_scaled_None
          print_line_printable)
  from un ri fp run show ?thesis
    unfolding ids_def tokens_def net_def by (intro conjI)
qed

text \<open>
  C9. Every line a run prints, whether the run ends normally or is cut short by an
  exception, is the fixed template
  \<^verbatim>\<open>tokens.push(TokenConfig("<SYMBOL>", <address>, <scaled-or-absent>, 18));\<close> filled with
  the symbol of the table entry at the line's position between double quotes, the
  entry's address as the table has it, unquoted and unchanged, the text \<^verbatim>\<open>None\<close> or the
  base-10 text of an integer, and the literal \<open>18\<close>. The witness is the line of ICP,
  whose address keeps its embedded space.
\<close>

theorem output_line_template:
  assumes "main net = (ls, r)" and "i < length ls"
  shows "\<exists>scaled.
           ls ! i = ''tokens.push(TokenConfig('' @ [CHR 0x22] @ fst (TOKENS ! i) @ [CHR 0x22] @
                    '', '' @ snd (TOKENS ! i) @ '', '' @ scaled @ '', 18));'' \<and>
           (scaled = ''None'' \<or> (\<exists>n. scaled = str_int n))"
proof -
  from script_lines [OF assms [unfolded main_def]] obtain scaled where
    l: "ls ! i = format_line (fst (TOKENS ! i)) (snd (TOKENS ! i)) scaled"
    and s: "scaled = PyStr ''None'' \<or> (\<exists>n. scaled = PyInt n)" by blast
  from s have "format_value scaled = ''None'' \<or> (\<exists>n. format_value scaled = str_int n)"
    by auto
  with l show ?thesis unfolding format_line_def line_of_def by blast
qed

theorem output_line_template_witness:
  "4 < length (fst (main (respond 200 litecoin_response))) \<and>
   (\<exists>scaled.
      fst (main (respond 200 litecoin_response)) ! 4 =
        ''tokens.push(TokenConfig('' @ [CHR 0x22] @ ''ICP'' @ [CHR 0x22] @
        '', '' @ ''0xb6eb2a1b73bc0d94 02c59c1b092abcec900b3d04'' @ '', '' @ scaled @ '', 18));'' \<and>
      (scaled = ''None'' \<or> (\<exists>n. scaled = str_int n)))"
proof -
  obtain ls r where m: "main (respond 200 litecoin_response) = (ls, r)"
    by (cases "main (respond 200 litecoin_response)")
  with litecoin_run have len: "4 < length ls" by (auto simp add: TOKENS_length)
  have t: "TOKENS ! 4 = (''ICP'', ''0xb6eb2a1b73bc0d94 02c59c1b092abcec900b3d04'')"
    by (simp add: TOKENS_def)
  from output_line_template [OF m len] m len show ?thesis unfolding t by simp
qed

text \<open>
  C10, as stated, fails in two places. The conversion is not a truncation of
  \<open>price \<times> 10^18\<close> for every present price: the product is first rounded to 50
  significant digits, half to even, so the price \<open>10^50 + 9\<close> gives \<open>10^68 + 10^19\<close>, which
  is above \<open>price \<times> 10^18 = 10^68 + 9 \<times> 10^18\<close>. And floor and the conversion do not
  agree only for non-negative prices: for the negative price \<open>-1\<close> both are \<open>-10^18\<close>.
\<close>

theorem truncation_toward_zero_counterexample:
  "compute_scaled (Some (Finite False (10 ^ 50 + 9) 0)) = Inr (PyInt (10 ^ 68 + 10 ^ 19)) \<and>
   decimal_value False (10 ^ 50 + 9) 0 * 10 ^ 18 = 10 ^ 68 + 9 * 10 ^ 18 \<and>
   decimal_value True 1 0 < 0 \<and>
   compute_scaled (Some (Finite True 1 0)) = Inr (PyInt \<lfloor>decimal_value True 1 0 * 10 ^ 18\<rfloor>)"
proof (intro conjI)
  show "compute_scaled (Some (Finite False (10 ^ 50 + 9) 0)) = Inr (PyInt (10 ^ 68 + 10 ^ 19))"
    by (rule rounded_up_price_scaled)
  show "decimal_value False (10 ^ 50 + 9) 0 * 10 ^ 18 = 10 ^ 68 + 9 * 10 ^ 18"
    by (simp add: decimal_value_def)
  show "decimal_value True 1 0 < 0" by (simp add: decimal_value_def)
  have "compute_scaled (Some (Finite True 1 0)) =
        Inr (PyInt ((if True then - 1 else 1) * trunc_scaled 1 0))"
    by (rule compute_scaled_exact) (simp_all add: ndigits_one prec_def Emax_def)
  moreover have "\<lfloor>decimal_value True 1 0 * 10 ^ 18\<rfloor> = - trunc_scaled 1 0"
    by (simp add: decimal_value_def trunc_scaled_def)
  ultimately show "compute_scaled (Some (Finite True 1 0)) =
                   Inr (PyInt \<lfloor>decimal_value True 1 0 * 10 ^ 18\<rfloor>)" by simp
qed

text \<open>
  C10, amended. For every present finite price with a coefficient of at most 50 digits
  and with \<open>price \<times> 10^18\<close> below \<open>10^(Emax+1)\<close> in magnitude, the conversion truncates
  \<open>price \<times> 10^18\<close> toward zero: for a negative price the emitted integer is the ceiling,
  otherwise the floor. So the conversion agrees with floor exactly when the price is not
  negative or \<open>price \<times> 10^18\<close> is an integer.
\<close>

theorem truncation_toward_zero:
  assumes "ndigits c \<le> prec" and "int (ndigits c) + e + 17 \<le> Emax"
    and v: "v = decimal_value sg c e * 10 ^ 18"
  shows "compute_scaled (Some (Finite sg c e)) =
           Inr (PyInt (if v < 0 then \<lceil>v\<rceil> else \<lfloor>v\<rfloor>)) \<and>
         ((if v < 0 then \<lceil>v\<rceil> else \<lfloor>v\<rfloor>) = \<lfloor>v\<rfloor> \<longleftrightarrow> 0 \<le> v \<or> v \<in> \<int>)"
proof
  show "compute_scaled (Some (Finite sg c e)) = Inr (PyInt (if v < 0 then \<lceil>v\<rceil> else \<lfloor>v\<rfloor>))"
    using assms by (rule compute_scaled_trunc)
  show "(if v < 0 then \<lceil>v\<rceil> else \<lfloor>v\<rfloor>) = \<lfloor>v\<rfloor> \<longleftrightarrow> 0 \<le> v \<or> v \<in> \<int>"
  proof (cases "v < 0")
    case True
    have "\<lceil>v\<rceil> = \<lfloor>v\<rfloor> \<longleftrightarrow> v \<in> \<int>"
      unfolding ceiling_altdef using of_int_floor_cancel [of v] by (auto simp add: eq_commute)
    with True show ?thesis by simp
  next
    case False
    then show ?thesis by simp
  qed
qed

theorem truncation_toward_zero_witness:
  "ndigits 15 \<le> prec \<and> int (ndigits 15) + (- 19) + 17 \<le> Emax \<and>
   compute_scaled (Some (Finite True 15 (- 19))) = Inr (PyInt (- 1)) \<and>
   \<lceil>decimal_value True 15 (- 19) * 10 ^ 18\<rceil> = - 1 \<and>
   \<lfloor>decimal_value True 15 (- 19) * 10 ^ 18\<rfloor> = - 2"
proof -
  have n: "ndigits 15 = 2" by (simp add: ndigits_def str_nat.simps)
  have a: "ndigits 15 \<le> prec" and b: "int (ndigits 15) + (- 19) + 17 \<le> Emax"
    by (simp_all add: n prec_def Emax_def)
  have c: "\<lceil>- (3 / 2 :: rat)\<rceil> = - 1" by (rule ceiling_unique) simp_all
  have f: "\<lfloor>- (3 / 2 :: rat)\<rfloor> = - 2" by (rule floor_unique) simp_all
  from truncation_toward_zero [OF a b small_negative_value [symmetric], THEN conjunct1]
  have "compute_scaled (Some (Finite True 15 (- 19))) = Inr (PyInt (- 1))"
    by (simp add: c)
  with a b c f show ?thesis unfolding small_negative_value by simp
qed

end
